(* ===== verification/Prelude.thy ===== *)
theory Prelude
  imports Main "HOL-Library.Word" "HOL-Library.Signed_Division"
begin

text \<open>
  Shared vocabulary of the RPN-calculator keymap model
  (\<^verbatim>\<open>src/mcro/rpncalc/keymaps/default/keymap.c\<close>): the C integer types
  of the globals as machine words, the two C operators on \<open>int32_t\<close> that
  HOL does not have (truncating \<open>/\<close> and \<open>%\<close>), the collections of
  lemmas the component theories add to, and the list and word facts they share.
\<close>

section \<open>Machine types of the source\<close>

type_synonym int32 = "32 word"   \<comment> \<open>\<open>int32_t\<close>: stack cells, values\<close>
type_synonym u16 = "16 word"     \<comment> \<open>\<open>uint16_t\<close>: \<open>stackpos\<close>, \<open>outbuf\<close>\<close>
type_synonym u8 = "8 word"       \<comment> \<open>\<open>uint8_t\<close>: \<open>inbuf\<close>, \<open>inbufpos\<close>\<close>

named_theorems inv_intros
  "facts that one operation keeps a component invariant"
named_theorems abs_simps
  "how an operation acts on the abstraction of its component state"

section \<open>C division and remainder on int32\<close>

text \<open>
  C99 integer division truncates towards zero and \<open>%\<close> takes the sign of the
  dividend (\<open>sdiv\<close>/\<open>smod\<close> on \<open>int\<close> from \<open>Signed_Division\<close>). Both are
  taken on the two's-complement reading of the operands and the result is
  stored back into 32 bits. A zero divisor is excluded by the callers that
  can meet one, which check it first.
\<close>

definition c_div :: "int32 \<Rightarrow> int32 \<Rightarrow> int32" where
  "c_div a b = word_of_int (sint a sdiv sint b)"

definition c_mod :: "int32 \<Rightarrow> int32 \<Rightarrow> int32" where
  "c_mod a b = word_of_int (sint a smod sint b)"

lemma word_of_int_sint_int32: "(word_of_int (sint v) :: int32) = v"
  by simp

lemma sdiv_10_abs: "\<bar>(k::int) sdiv 10\<bar> \<le> \<bar>k\<bar> div 10"
  by (simp add: signed_divide_int_def abs_mult sgn_if)

lemma sint_int32_range: "- (2 ^ 31) \<le> sint (v::int32) \<and> sint v < 2 ^ 31"
  using sint_ge[of v] sint_lt[of v] by simp

lemma sint_c_div_10 [simp]: "sint (c_div v 10) = sint v sdiv 10"
proof -
  have "\<bar>sint v sdiv 10\<bar> \<le> \<bar>sint v\<bar> div 10" by (rule sdiv_10_abs)
  with sint_int32_range[of v]
  have "- (2 ^ 31) \<le> sint v sdiv 10 \<and> sint v sdiv 10 < 2 ^ 31" by linarith
  then show ?thesis
    unfolding c_div_def by (simp add: sint_sbintrunc' signed_take_bit_int_eq_self)
qed

lemma sint_c_mod_10 [simp]: "sint (c_mod v 10) = sint v smod 10"
proof -
  have "sint v smod 10 \<in> {- \<bar>10\<bar> + 1..\<bar>10\<bar> - 1}" by (rule smod_int_range) simp
  then show ?thesis
    unfolding c_mod_def by (simp add: sint_sbintrunc' signed_take_bit_int_eq_self)
qed

text \<open>
  The general quotient fits in 32 bits except for \<open>INT_MIN / -1\<close>, the
  one signed overflow of C division, which wraps back to \<open>INT_MIN\<close>.
\<close>

lemma sdiv_abs_div: "\<bar>(k::int) sdiv l\<bar> = \<bar>k\<bar> div \<bar>l\<bar>"
proof -
  have "0 \<le> \<bar>k\<bar> div \<bar>l\<bar>" by (simp add: div_int_pos_iff)
  then show ?thesis by (cases "l = 0"; cases "k = 0") (simp_all add: signed_divide_int_def abs_mult abs_sgn_eq)
qed

lemma sdiv_minus_one: "(k::int) sdiv -1 = - k"
  by (simp add: signed_divide_int_def sgn_if)

lemma sint_c_div:
  assumes "\<not> (sint a = - (2 ^ 31) \<and> sint b = -1)"
  shows "sint (c_div a b) = sint a sdiv sint b"
proof -
  let ?x = "sint a" and ?y = "sint b"
  have x: "- (2 ^ 31) \<le> ?x" "?x < 2 ^ 31" using sint_int32_range[of a] by simp_all
  have "- (2 ^ 31) \<le> ?x sdiv ?y \<and> ?x sdiv ?y < 2 ^ 31"
  proof (cases "\<bar>?y\<bar> \<le> 1")
    case True
    then consider "?y = 0" | "?y = 1" | "?y = -1" by linarith
    then show ?thesis
    proof cases
      case 3
      with assms have "?x \<noteq> - (2 ^ 31)" by simp
      with x 3 show ?thesis by (simp add: sdiv_minus_one)
    qed (use x in \<open>simp_all\<close>)
  next
    case False
    then have "\<bar>?x\<bar> div \<bar>?y\<bar> \<le> \<bar>?x\<bar> div 2" by (intro zdiv_mono2) simp_all
    with x have "\<bar>?x sdiv ?y\<bar> < 2 ^ 31" by (simp add: sdiv_abs_div)
    then show ?thesis by linarith
  qed
  then show ?thesis
    unfolding c_div_def by (simp add: sint_sbintrunc' signed_take_bit_int_eq_self)
qed

lemma c_div_min_minus_one: "sint a = - (2 ^ 31) \<Longrightarrow> sint b = -1 \<Longrightarrow> c_div a b = a"
proof -
  assume a: "sint a = - (2 ^ 31)" and b: "sint b = -1"
  then have "c_div a b = word_of_int (2 ^ 31)" by (simp add: c_div_def sdiv_minus_one)
  also have "\<dots> = word_of_int (- (2 ^ 31))" by simp
  also have "\<dots> = a" using a by (metis word_of_int_sint_int32)
  finally show ?thesis .
qed
lemma sdiv_10_nonneg: "0 \<le> k \<Longrightarrow> (k::int) sdiv 10 = k div 10"
  by (simp add: signed_divide_int_def sgn_if)

lemma smod_10_nonneg: "0 \<le> k \<Longrightarrow> (k::int) smod 10 = k mod 10"
  by (simp add: signed_modulo_int_def sgn_if)

lemma sdiv_10_nonpos: "k \<le> 0 \<Longrightarrow> (k::int) sdiv 10 = - ((- k) div 10)"
  by (simp add: signed_divide_int_def sgn_if)

lemma smod_10_nonpos: "k \<le> 0 \<Longrightarrow> (k::int) smod 10 = - ((- k) mod 10)"
  by (simp add: signed_modulo_int_def sgn_if)

lemma sint_of_nat_small: "n < 2 ^ 31 \<Longrightarrow> sint (of_nat n :: int32) = int n"
proof -
  assume n: "n < 2 ^ 31"
  have w: "(of_nat n :: int32) = word_of_int (int n)" by simp
  from n have "- (2 ^ 31) \<le> int n \<and> int n < 2 ^ 31" by simp
  then have "sint (word_of_int (int n) :: int32) = int n"
    by (simp only: sint_sbintrunc') (simp add: signed_take_bit_int_eq_self)
  with w show ?thesis by simp
qed

text \<open>
  In general a natural number read as an \<open>int32_t\<close> wraps into the signed
  range; from \<open>2^31\<close> up to \<open>2^32\<close> it reads \<open>2^32\<close> less.
\<close>

lemma sint_of_nat_wrap: "sint (of_nat n :: int32) = (int n + 2 ^ 31) mod 2 ^ 32 - 2 ^ 31"
proof -
  have w: "(of_nat n :: int32) = word_of_int (int n)" by simp
  have "sint (word_of_int (int n) :: int32) = signed_take_bit 31 (int n)"
    by (simp only: sint_sbintrunc') simp
  with w show ?thesis by (simp add: signed_take_bit_eq_take_bit_shift take_bit_eq_mod)
qed
lemma sint_of_nat_wrap_high:
  "2 ^ 31 \<le> n \<Longrightarrow> n < 2 ^ 32 \<Longrightarrow> sint (of_nat n :: int32) = int n - 2 ^ 32"
proof -
  assume "2 ^ 31 \<le> n" "n < 2 ^ 32"
  then have "(int n + 2 ^ 31 - 2 ^ 32) mod 2 ^ 32 = int n + 2 ^ 31 - 2 ^ 32"
    by (intro mod_pos_pos_trivial) simp_all
  then have "(int n + 2 ^ 31) mod 2 ^ 32 = int n + 2 ^ 31 - 2 ^ 32"
    by (simp only: minus_mod_self2)
  then show ?thesis by (simp add: sint_of_nat_wrap)
qed

text \<open>
  Unary minus on \<open>int32_t\<close>: exact except on the least value, which it
  maps to itself under wrap-around.
\<close>

lemma sint_uminus_int32: "sint (v::int32) \<noteq> - (2 ^ 31) \<Longrightarrow> sint (- v) = - sint v"
proof -
  assume a: "sint v \<noteq> - (2 ^ 31)"
  have w: "- v = word_of_int (- sint v)" by (metis word_of_int_sint_int32 wi_hom_neg)
  have "- (2 ^ 31) \<le> - sint v \<and> - sint v < 2 ^ 31"
    using sint_int32_range[of v] a by linarith
  then have "sint (word_of_int (- sint v) :: int32) = - sint v"
    by (simp only: sint_sbintrunc') (simp add: signed_take_bit_int_eq_self)
  with w show ?thesis by simp
qed

lemma uminus_int32_min: "sint (v::int32) = - (2 ^ 31) \<Longrightarrow> - v = v"
proof -
  assume "sint v = - (2 ^ 31)"
  then have "v = word_of_int (- (2 ^ 31))" by (metis word_of_int_sint_int32)
  then show ?thesis by simp
qed

section \<open>Arrays as lists\<close>

text \<open>
  The C arrays are lists of fixed length; a counter \<open>pos\<close> says how many cells
  are live. Writing cell \<open>pos\<close> and counting it extends the live prefix.
\<close>

lemma take_Suc_update:
  "n < length xs \<Longrightarrow> take (Suc n) (xs[n := v]) = take n xs @ [v]"
  by (simp add: take_Suc_conv_app_nth take_update_cancel)

lemma take_pred_live:
  "0 < n \<Longrightarrow> n \<le> length xs \<Longrightarrow> take n xs = take (n - 1) xs @ [xs ! (n - 1)]"
  using take_Suc_conv_app_nth[of "n - 1" xs] by simp

lemma upt_0_Suc: "[0..<Suc k] = 0 # map Suc [0..<k]"
  using upt_conv_Cons[of 0 "Suc k"] map_Suc_upt[of 0 k] by simp

lemma pow_Suc_div: "(n::nat) div b ^ Suc j = n div b div b ^ j"
  by (simp add: div_mult2_eq)

section \<open>Results\<close>

text \<open>A result mapped through an abstraction of its state: how to read it back.\<close>

lemma map_sum_apfst_Inr:
  "map_sum id (apfst f) r = Inr (a, out) \<longleftrightarrow> (\<exists>x. r = Inr (x, out) \<and> f x = a)"
  by (cases r) auto

lemma map_sum_apfst_Inl:
  "map_sum id (apfst f) r = Inl e \<longleftrightarrow> r = Inl e"
  by (cases r) auto

section \<open>Counters as words\<close>

lemma unat_succ:
  "unat (w::'a::len word) < 2 ^ LENGTH('a) - 1 \<Longrightarrow> unat (w + 1) = Suc (unat w)"
proof -
  assume "unat w < 2 ^ LENGTH('a) - 1"
  then have "unat w + unat (1::'a word) < 2 ^ LENGTH('a)" by simp
  then show ?thesis by (simp add: unat_add_lem [THEN iffD1])
qed

lemma unat_pred: "w \<noteq> 0 \<Longrightarrow> unat (w - 1) = unat (w::'a::len word) - 1"
  by (simp add: unat_minus_one)

lemma unat_u16_succ [simp]: "unat (w::u16) < 1024 \<Longrightarrow> unat (w + 1) = Suc (unat w)"
  by (rule unat_succ) simp

lemma unat_u8_succ [simp]: "unat (w::u8) < 15 \<Longrightarrow> unat (w + 1) = Suc (unat w)"
  by (rule unat_succ) simp

end
