(* ===== verification/InputBuffer.thy ===== *)
theory InputBuffer
  imports Prelude
begin

text \<open>
  The digit input buffer of \<^verbatim>\<open>keymap.c\<close>: the globals \<open>inbuf\<close> (an array of
  \<open>MAX_INPUT + 1 = 16\<close> bytes) and \<open>inbufpos\<close> (\<open>uint8_t\<close>), and the
  functions \<open>record_input\<close>, \<open>backspace_input\<close> and \<open>pop_inbuf\<close>. The live
  digits are the prefix \<open>inbuf[0 .. inbufpos - 1]\<close>, earliest typed first; the
  abstraction \<open>abs_input\<close> reads them as a list. \<open>pop_inbuf\<close> evaluates the
  digits in \<open>int32_t\<close> arithmetic, so its result is the decimal value modulo
  \<open>2^32\<close>; it is exact for at most nine digits.
\<close>

section \<open>State and operations\<close>

definition MAX_INPUT :: nat where
  "MAX_INPUT = 15"

record input_buffer =
  inbuf :: "u8 list"
  inbufpos :: u8

definition init_input :: input_buffer where
  "init_input = \<lparr>inbuf = replicate (MAX_INPUT + 1) 0, inbufpos = 0\<rparr>"

text \<open>\<open>record_input(digit)\<close>: ignore the digit when the buffer is full.\<close>

definition record_input :: "u8 \<Rightarrow> input_buffer \<Rightarrow> input_buffer" where
  "record_input digit ib =
     (if MAX_INPUT \<le> unat (inbufpos ib) then ib
      else ib\<lparr>inbuf := (inbuf ib)[unat (inbufpos ib) := digit],
              inbufpos := inbufpos ib + 1\<rparr>)"

text \<open>\<open>backspace_input()\<close>: forget the last digit, if there is one.\<close>

definition backspace_input :: "input_buffer \<Rightarrow> input_buffer" where
  "backspace_input ib =
     (if unat (inbufpos ib) \<le> 0 then ib else ib\<lparr>inbufpos := inbufpos ib - 1\<rparr>)"

text \<open>
  The loop of \<open>pop_inbuf()\<close>, \<open>for (int i = inbufpos - 1; i >= 0; --i)\<close>,
  over the C \<open>int\<close> index: each iteration adds \<open>inbuf[i] * magnitude\<close>,
  multiplies \<open>magnitude\<close> by ten and zeroes the cell, all in 32-bit
  arithmetic; the loop stops when \<open>i\<close> falls below 0, and \<open>nat (i + 1)\<close>
  decreases at each iteration.
\<close>

function pop_inbuf_for :: "int \<Rightarrow> u8 list \<Rightarrow> int32 \<Rightarrow> int32 \<Rightarrow> u8 list \<times> int32" where
  "pop_inbuf_for i buf magnitude value =
     (if i < 0 then (buf, value)
      else pop_inbuf_for (i - 1) (buf[nat i := 0]) (magnitude * 10)
             (value + ucast (buf ! nat i) * magnitude))"
  by pat_completeness auto
termination
  by (relation "measure (\<lambda>(i, buf, magnitude, value). nat (i + 1))") auto

declare pop_inbuf_for.simps [simp del]

definition pop_inbuf :: "input_buffer \<Rightarrow> input_buffer \<times> int32" where
  "pop_inbuf ib =
     (let (buf, value) = pop_inbuf_for (int (unat (inbufpos ib)) - 1) (inbuf ib) 1 0
      in (ib\<lparr>inbuf := buf, inbufpos := 0\<rparr>, value))"

text \<open>
  The same loop counting the iterations left, the form the proofs use:
  the call for \<open>Suc i\<close> handles cell \<open>i\<close>.
\<close>

fun pop_inbuf_loop :: "nat \<Rightarrow> u8 list \<Rightarrow> int32 \<Rightarrow> int32 \<Rightarrow> u8 list \<times> int32" where
  "pop_inbuf_loop 0 buf magnitude value = (buf, value)"
| "pop_inbuf_loop (Suc i) buf magnitude value =
     pop_inbuf_loop i (buf[i := 0]) (magnitude * 10) (value + ucast (buf ! i) * magnitude)"

section \<open>Invariant and abstraction\<close>

text \<open>
  The array keeps its length, the counter stays within \<open>MAX_INPUT\<close> (so every
  write and read is in bounds), and every live cell holds a decimal digit.
\<close>

definition abs_input :: "input_buffer \<Rightarrow> u8 list" where
  "abs_input ib = take (unat (inbufpos ib)) (inbuf ib)"

definition input_inv :: "input_buffer \<Rightarrow> bool" where
  "input_inv ib \<longleftrightarrow>
     length (inbuf ib) = MAX_INPUT + 1 \<and> unat (inbufpos ib) \<le> MAX_INPUT \<and>
     (\<forall>d \<in> set (abs_input ib). unat d < 10)"

text \<open>The decimal value of a digit list, earliest (most significant) digit first.\<close>

definition dec_val :: "u8 list \<Rightarrow> nat" where
  "dec_val ds = foldl (\<lambda>acc d. 10 * acc + unat d) 0 ds"

section \<open>The digit loop of pop_inbuf\<close>

lemma pop_inbuf_for_loop:
  "pop_inbuf_for (int n - 1) buf mag acc = pop_inbuf_loop n buf mag acc"
proof (induction n arbitrary: buf mag acc)
  case 0
  then show ?case by (simp add: pop_inbuf_for.simps)
next
  case (Suc k)
  have i: "int (Suc k) - 1 = int k" by simp
  show ?case
    by (simp only: i, subst pop_inbuf_for.simps) (simp add: Suc.IH)
qed

lemma pop_inbuf_by_loop:
  "pop_inbuf ib =
     (let (buf, value) = pop_inbuf_loop (unat (inbufpos ib)) (inbuf ib) 1 0
      in (ib\<lparr>inbuf := buf, inbufpos := 0\<rparr>, value))"
  by (simp only: pop_inbuf_def pop_inbuf_for_loop)

lemma dec_val_Nil [simp]: "dec_val [] = 0"
  by (simp add: dec_val_def)

lemma dec_val_snoc [simp]: "dec_val (ds @ [d]) = 10 * dec_val ds + unat d"
  by (simp add: dec_val_def)

lemma dec_val_bound: "\<forall>d \<in> set ds. unat d < 10 \<Longrightarrow> dec_val ds < 10 ^ length ds"
proof (induction ds rule: rev_induct)
  case Nil
  then show ?case by simp
next
  case (snoc d ds)
  then have "dec_val ds + 1 \<le> 10 ^ length ds" "unat d < 10" by auto
  then show ?case by simp
qed

text \<open>
  After \<open>i\<close> iterations the accumulator has gained \<open>magnitude\<close> times the value
  of the first \<open>i\<close> cells, in 32-bit arithmetic: the loop reads the cells from
  the last to the first while the magnitude grows, which is Horner's rule read
  backwards.
\<close>

lemma pop_inbuf_loop_value:
  "i \<le> length buf \<Longrightarrow>
   snd (pop_inbuf_loop i buf mag acc) = acc + mag * of_nat (dec_val (take i buf))"
proof (induction i arbitrary: buf mag acc)
  case 0
  then show ?case by simp
next
  case (Suc i)
  then have "i < length buf" by simp
  with Suc.IH[of "buf[i := 0]"] show ?case
    by (simp add: take_Suc_conv_app_nth algebra_simps)
qed

lemma pop_inbuf_loop_buf:
  "i \<le> length buf \<Longrightarrow> fst (pop_inbuf_loop i buf mag acc) = replicate i 0 @ drop i buf"
proof (induction i arbitrary: buf mag acc)
  case 0
  then show ?case by simp
next
  case (Suc i)
  then have i: "i < length buf" by simp
  then have "drop i (buf[i := 0]) = 0 # drop (Suc i) buf"
    by (metis Cons_nth_drop_Suc drop_update_cancel length_list_update lessI nth_list_update_eq)
  with Suc.IH[of "buf[i := 0]"] i show ?case
    by (simp add: replicate_append_same[symmetric])
qed

section \<open>Operations on the abstraction\<close>

lemma input_inv_length_abs:
  "input_inv ib \<Longrightarrow> length (abs_input ib) = unat (inbufpos ib)"
  by (simp add: input_inv_def abs_input_def MAX_INPUT_def)

lemma inbufpos_pos_iff [abs_simps]:
  "input_inv ib \<Longrightarrow> (0 < inbufpos ib) = (abs_input ib \<noteq> [])"
  by (simp add: word_less_nat_alt input_inv_length_abs flip: length_greater_0_conv)

lemma record_input_abs [abs_simps]:
  assumes "input_inv ib"
  shows "abs_input (record_input d ib) =
           (if length (abs_input ib) < MAX_INPUT then abs_input ib @ [d] else abs_input ib)"
proof (cases "MAX_INPUT \<le> unat (inbufpos ib)")
  case True
  with assms show ?thesis by (simp add: record_input_def input_inv_length_abs)
next
  case False
  with assms have "unat (inbufpos ib) < length (inbuf ib)" "unat (inbufpos ib) < 15"
    by (simp_all add: input_inv_def MAX_INPUT_def)
  with False assms show ?thesis
    by (simp add: record_input_def abs_input_def take_Suc_update input_inv_length_abs)
qed

lemma backspace_input_abs [abs_simps]:
  assumes "input_inv ib"
  shows "abs_input (backspace_input ib) = butlast (abs_input ib)"
proof (cases "inbufpos ib = 0")
  case True
  then show ?thesis by (simp add: backspace_input_def abs_input_def)
next
  case False
  with assms show ?thesis
    by (simp add: backspace_input_def abs_input_def input_inv_def unat_pred butlast_take
        unat_gt_0 MAX_INPUT_def)
qed

lemma pop_inbuf_eq:
  assumes "input_inv ib"
  shows "pop_inbuf ib =
           (ib\<lparr>inbuf := replicate (unat (inbufpos ib)) 0 @ drop (unat (inbufpos ib)) (inbuf ib),
               inbufpos := 0\<rparr>,
            of_nat (dec_val (abs_input ib)))"
proof -
  let ?n = "unat (inbufpos ib)"
  from assms have n: "?n \<le> length (inbuf ib)" by (simp add: input_inv_def MAX_INPUT_def)
  obtain buf v where loop: "pop_inbuf_loop ?n (inbuf ib) 1 0 = (buf, v)"
    by (cases "pop_inbuf_loop ?n (inbuf ib) 1 0")
  show ?thesis
    using pop_inbuf_loop_value[OF n, of 1 0] pop_inbuf_loop_buf[OF n, of 1 0]
    by (simp add: pop_inbuf_by_loop abs_input_def loop)
qed

lemma pop_inbuf_abs [abs_simps]:
  "input_inv ib \<Longrightarrow> abs_input (fst (pop_inbuf ib)) = []"
  by (simp add: pop_inbuf_eq abs_input_def)

section \<open>The invariant is kept\<close>

lemma init_input_inv: "input_inv init_input"
  by (simp add: input_inv_def init_input_def abs_input_def)

lemma record_input_inv [inv_intros]:
  "input_inv ib \<Longrightarrow> unat d < 10 \<Longrightarrow> input_inv (record_input d ib)"
  by (auto simp: input_inv_def record_input_abs simp del: set_append
      dest: in_set_butlastD, auto simp: record_input_def MAX_INPUT_def)

lemma backspace_input_inv [inv_intros]: "input_inv ib \<Longrightarrow> input_inv (backspace_input ib)"
  by (auto simp: input_inv_def backspace_input_abs dest: in_set_butlastD,
      auto simp: backspace_input_def unat_pred unat_gt_0)

lemma pop_inbuf_inv [inv_intros]: "input_inv ib \<Longrightarrow> input_inv (fst (pop_inbuf ib))"
  by (simp add: pop_inbuf_eq input_inv_def abs_input_def)

lemma pop_inbuf_inv_eq [inv_intros]:
  "pop_inbuf ib = (ib', v) \<Longrightarrow> input_inv ib \<Longrightarrow> input_inv ib'"
  using pop_inbuf_inv[of ib] by simp

section \<open>Properties\<close>

text \<open>
  C16. \<open>pop_inbuf\<close> returns the decimal value of the pending digits (taken
  modulo \<open>2^32\<close>, as \<open>int32_t\<close> arithmetic wraps), resets \<open>inbufpos\<close> to 0,
  zeroes every cell it read and leaves the others alone.
\<close>

theorem pop_inbuf_drains:
  assumes "input_inv ib"
  shows "snd (pop_inbuf ib) = of_nat (dec_val (abs_input ib)) \<and>
         inbufpos (fst (pop_inbuf ib)) = 0 \<and>
         take (unat (inbufpos ib)) (inbuf (fst (pop_inbuf ib))) = replicate (unat (inbufpos ib)) 0 \<and>
         drop (unat (inbufpos ib)) (inbuf (fst (pop_inbuf ib))) = drop (unat (inbufpos ib)) (inbuf ib)"
proof -
  from assms have "unat (inbufpos ib) \<le> length (inbuf ib)"
    by (simp add: input_inv_def MAX_INPUT_def)
  with assms show ?thesis by (simp add: pop_inbuf_eq)
qed

theorem pop_inbuf_drains_witness:
  "input_inv \<lparr>inbuf = [0, 0, 7, 0, 0, 0, 0, 0, 0, 0, 0, 0, 0, 0, 0, 0], inbufpos = 3\<rparr> \<and>
   snd (pop_inbuf \<lparr>inbuf = [0, 0, 7, 0, 0, 0, 0, 0, 0, 0, 0, 0, 0, 0, 0, 0], inbufpos = 3\<rparr>) = 7"
proof -
  let ?ib = "\<lparr>inbuf = [0, 0, 7, 0, 0, 0, 0, 0, 0, 0, 0, 0, 0, 0, 0, 0::u8], inbufpos = 3::u8\<rparr>"
  have h: "input_inv ?ib" by (simp add: input_inv_def abs_input_def MAX_INPUT_def)
  show ?thesis using pop_inbuf_drains[OF h] h by (simp add: abs_input_def dec_val_def)
qed

text \<open>
  C17. With at most nine digits the value is exact: read as a signed
  \<open>int32_t\<close>, it is the decimal value of the digits.
\<close>

theorem pop_inbuf_exact:
  assumes "input_inv ib" and "length (abs_input ib) \<le> 9"
  shows "sint (snd (pop_inbuf ib)) = int (dec_val (abs_input ib))"
proof -
  from assms(1) have "\<forall>d \<in> set (abs_input ib). unat d < 10" by (simp add: input_inv_def)
  then have "dec_val (abs_input ib) < 10 ^ length (abs_input ib)" by (rule dec_val_bound)
  also have "\<dots> \<le> 10 ^ 9" using assms(2) by (rule power_increasing) simp
  finally have "dec_val (abs_input ib) < 2 ^ 31" by simp
  with assms(1) show ?thesis by (simp add: pop_inbuf_eq sint_of_nat_small)
qed

theorem pop_inbuf_exact_witness:
  "input_inv \<lparr>inbuf = [0, 0, 7, 0, 0, 0, 0, 0, 0, 0, 0, 0, 0, 0, 0, 0], inbufpos = 3\<rparr> \<and>
   length (abs_input \<lparr>inbuf = [0, 0, 7, 0, 0, 0, 0, 0, 0, 0, 0, 0, 0, 0, 0, 0], inbufpos = 3\<rparr>) \<le> 9 \<and>
   sint (snd (pop_inbuf \<lparr>inbuf = [0, 0, 7, 0, 0, 0, 0, 0, 0, 0, 0, 0, 0, 0, 0, 0], inbufpos = 3\<rparr>)) = 7"
proof -
  let ?ib = "\<lparr>inbuf = [0, 0, 7, 0, 0, 0, 0, 0, 0, 0, 0, 0, 0, 0, 0, 0::u8], inbufpos = 3::u8\<rparr>"
  have h: "input_inv ?ib" "length (abs_input ?ib) \<le> 9"
    by (simp_all add: input_inv_def abs_input_def MAX_INPUT_def)
  show ?thesis using pop_inbuf_exact[OF h] h by (simp add: abs_input_def dec_val_def)
qed



text \<open>
  C19. Recording a digit below the limit appends it to the pending digits,
  and backspace then undoes it: the pending digits and their count are
  those before the digit was typed.
\<close>

theorem record_backspace_roundtrip:
  assumes "input_inv ib" and "unat d < 10" and "length (abs_input ib) < MAX_INPUT"
  shows "abs_input (record_input d ib) = abs_input ib @ [d] \<and>
         abs_input (backspace_input (record_input d ib)) = abs_input ib \<and>
         inbufpos (backspace_input (record_input d ib)) = inbufpos ib"
proof -
  have inv: "input_inv (record_input d ib)" using assms(1,2) by (rule record_input_inv)
  from assms(1,3) have "unat (inbufpos ib) < 15" by (simp add: input_inv_length_abs MAX_INPUT_def)
  with assms inv show ?thesis
    by (simp add: backspace_input_abs record_input_abs) (simp add: record_input_def
        backspace_input_def MAX_INPUT_def)
qed

theorem record_backspace_roundtrip_witness:
  "input_inv init_input \<and> unat (3::u8) < 10 \<and> length (abs_input init_input) < MAX_INPUT \<and>
   abs_input (record_input 3 init_input) = [3] \<and>
   abs_input (backspace_input (record_input 3 init_input)) = abs_input init_input"
proof -
  have h1: "input_inv init_input" by (rule init_input_inv)
  have h2: "unat (3::u8) < 10" by simp
  have h3: "length (abs_input init_input) < MAX_INPUT"
    by (simp add: init_input_def abs_input_def MAX_INPUT_def)
  have e: "abs_input init_input = []" by (simp add: init_input_def abs_input_def)
  note h = h1 h2 h3
  show ?thesis using record_backspace_roundtrip[OF h] h by (simp add: e)
qed

text \<open>
  C20. A digit typed when fifteen are pending is dropped without any sign:
  the buffer is unchanged.
\<close>

theorem record_input_full:
  assumes "input_inv ib" and "length (abs_input ib) = MAX_INPUT"
  shows "record_input d ib = ib"
  using assms by (simp add: record_input_def input_inv_length_abs)

theorem record_input_full_witness:
  "input_inv \<lparr>inbuf = replicate 16 1, inbufpos = 15\<rparr> \<and>
   length (abs_input \<lparr>inbuf = replicate 16 1, inbufpos = 15\<rparr>) = MAX_INPUT \<and>
   record_input 4 \<lparr>inbuf = replicate 16 1, inbufpos = 15\<rparr> = \<lparr>inbuf = replicate 16 1, inbufpos = 15\<rparr>"
proof -
  let ?ib = "\<lparr>inbuf = replicate 16 (1::u8), inbufpos = 15::u8\<rparr>"
  have h: "input_inv ?ib" "length (abs_input ?ib) = MAX_INPUT"
    by (simp_all add: input_inv_def abs_input_def MAX_INPUT_def)
  show ?thesis using record_input_full[OF h] h by simp
qed

text \<open>
  C21. The three operations of the buffer keep its invariant (a digit is
  recorded only by the digit keys) and act on the pending digits as list
  operations: append unless full, drop the last, empty.
\<close>

theorem input_buffer_refines:
  assumes "input_inv ib" and "unat d < 10"
  shows "input_inv (record_input d ib) \<and>
         abs_input (record_input d ib) =
           (if length (abs_input ib) < MAX_INPUT then abs_input ib @ [d] else abs_input ib) \<and>
         input_inv (backspace_input ib) \<and>
         abs_input (backspace_input ib) = butlast (abs_input ib) \<and>
         input_inv (fst (pop_inbuf ib)) \<and> abs_input (fst (pop_inbuf ib)) = []"
  using assms
  by (simp add: record_input_inv record_input_abs backspace_input_inv backspace_input_abs
      pop_inbuf_inv pop_inbuf_abs)

theorem input_buffer_refines_witness:
  "input_inv init_input \<and> unat (5::u8) < 10 \<and>
   abs_input (record_input 5 init_input) = [5] \<and>
   abs_input (backspace_input init_input) = []"
proof -
  have h: "input_inv init_input" "unat (5::u8) < 10" by (simp_all add: init_input_inv)
  have "length (abs_input init_input) < MAX_INPUT" "abs_input init_input = []"
    by (simp_all add: init_input_def abs_input_def MAX_INPUT_def)
  then show ?thesis using input_buffer_refines[OF h] h by simp
qed

end
