(* ===== verification/Host.thy ===== *)
theory Host
  imports Prelude
begin

text \<open>
  The boundary with the QMK host firmware, which is not part of the core: the
  two output primitives the keymap calls, \<open>tap_code\<close> and \<open>send_string\<close>
  (and the \<open>SEND_STRING\<close> macro over it), become events appended to an output
  trace, and the host keycodes the keymap emits become a datatype. The errors
  that the C code reaches as undefined behaviour are the values of
  \<open>rpn_error\<close>.
\<close>

text \<open>Host (HID) keycodes named in the keymap: \<open>KC_0\<close> .. \<open>KC_9\<close>, \<open>KC_BSPC\<close>.\<close>

datatype hid_keycode =
    KC_0 | KC_1 | KC_2 | KC_3 | KC_4 | KC_5 | KC_6 | KC_7 | KC_8 | KC_9
  | KC_BSPC

text \<open>One call of a host output primitive.\<close>

datatype out_event =
    Tap_code hid_keycode   \<comment> \<open>\<open>tap_code(kc)\<close>\<close>
  | Send_string string     \<comment> \<open>\<open>send_string(s)\<close> / \<open>SEND_STRING(s)\<close>\<close>

text \<open>The C escape \<open>\n\<close> inside the literals sent by \<open>SEND_STRING\<close>.\<close>

abbreviation newline :: string where
  "newline \<equiv> [CHR 0x0A]"

text \<open>
  Undefined behaviour of the C code, made an explicit result:
  \<^item> \<open>Division_by_zero\<close>: \<open>stack_pop() / v\<close> with \<open>v = 0\<close>;
  \<^item> \<open>Keymap_out_of_bounds\<close>: \<open>keyvalmap[outbuf[i]]\<close> with an index \<open>\<ge> 10\<close>;
  \<^item> \<open>Stack_out_of_bounds\<close>: \<open>stack[stackpos - 1]\<close> with \<open>stackpos = 0\<close>.
\<close>

datatype rpn_error = Division_by_zero | Keymap_out_of_bounds | Stack_out_of_bounds

section \<open>What the host shows\<close>

text \<open>
  The keymap's output lands in whatever application has the focus on the
  host; the spec reads it as typed text. Modelled from the spec, not from
  QMK: a tapped digit key appends its character, a tapped backspace removes
  the last character (if any), and a sent string is typed character by
  character, \<open>\n\<close> included.
\<close>

fun host_apply :: "string \<Rightarrow> out_event \<Rightarrow> string" where
  "host_apply t (Tap_code KC_BSPC) = butlast t"
| "host_apply t (Tap_code KC_0) = t @ ''0''"
| "host_apply t (Tap_code KC_1) = t @ ''1''"
| "host_apply t (Tap_code KC_2) = t @ ''2''"
| "host_apply t (Tap_code KC_3) = t @ ''3''"
| "host_apply t (Tap_code KC_4) = t @ ''4''"
| "host_apply t (Tap_code KC_5) = t @ ''5''"
| "host_apply t (Tap_code KC_6) = t @ ''6''"
| "host_apply t (Tap_code KC_7) = t @ ''7''"
| "host_apply t (Tap_code KC_8) = t @ ''8''"
| "host_apply t (Tap_code KC_9) = t @ ''9''"
| "host_apply t (Send_string str) = t @ str"

definition host_text :: "string \<Rightarrow> out_event list \<Rightarrow> string" where
  "host_text t evs = foldl host_apply t evs"

text \<open>The characters of pending digits as the digit keys echo them.\<close>

definition echo_text :: "u8 list \<Rightarrow> string" where
  "echo_text ds = map (\<lambda>d. char_of (48 + unat d)) ds"

lemma host_text_Nil [simp]: "host_text t [] = t"
  by (simp add: host_text_def)

lemma host_text_Cons [simp]: "host_text t (e # evs) = host_text (host_apply t e) evs"
  by (simp add: host_text_def)

lemma host_text_append [simp]: "host_text t (xs @ ys) = host_text (host_text t xs) ys"
  by (simp add: host_text_def)

lemma echo_text_snoc_digit:
  "d < 10 \<Longrightarrow> echo_text (ds @ [of_nat d]) = echo_text ds @ [char_of (48 + d)]"
  by (simp add: echo_text_def unat_of_nat)

lemma echo_text_empty_iff [simp]: "echo_text ds = [] \<longleftrightarrow> ds = []"
  by (simp add: echo_text_def)

lemma echo_text_butlast: "echo_text (butlast ds) = butlast (echo_text ds)"
  by (simp add: echo_text_def map_butlast)

end
