(* ===== verification/Stack.thy ===== *)
theory Stack
  imports Host
begin

text \<open>
  The value stack of \<^verbatim>\<open>keymap.c\<close>: the globals \<open>stack\<close> (an array of
  \<open>STACKSIZE = 1024\<close> \<open>int32_t\<close> cells) and \<open>stackpos\<close> (\<open>uint16_t\<close>), and
  the functions \<open>stack_push\<close>, \<open>stack_pop\<close> and \<open>stack_peek\<close>. The live
  cells are \<open>stack[0 .. stackpos - 1]\<close> with the top at \<open>stackpos - 1\<close>; the
  abstraction \<open>abs_stack\<close> lists them top first, so that the abstract
  operations are those of a list used as a stack.
\<close>

section \<open>State and operations\<close>

definition STACKSIZE :: nat where
  "STACKSIZE = 1024"

record rpn_stack =
  stack :: "int32 list"
  stackpos :: u16

definition init_stack :: rpn_stack where
  "init_stack = \<lparr>stack = replicate STACKSIZE 0, stackpos = 0\<rparr>"

text \<open>\<open>stack_push(value)\<close>: drop the value when the stack is full.\<close>

definition stack_push :: "int32 \<Rightarrow> rpn_stack \<Rightarrow> rpn_stack" where
  "stack_push v st =
     (if STACKSIZE \<le> unat (stackpos st) then st
      else st\<lparr>stack := (stack st)[unat (stackpos st) := v], stackpos := stackpos st + 1\<rparr>)"

text \<open>\<open>stack_pop()\<close>: the new stack and the value returned (0 on an empty stack).\<close>

definition stack_pop :: "rpn_stack \<Rightarrow> rpn_stack \<times> int32" where
  "stack_pop st =
     (if unat (stackpos st) < 1 then (st, 0)
      else let pos = stackpos st - 1 in (st\<lparr>stackpos := pos\<rparr>, stack st ! unat pos))"

text \<open>
  \<open>stack_peek()\<close> reads \<open>stack[stackpos - 1]\<close> with no check; on an empty stack
  the index is \<open>-1\<close> and the read is out of bounds.
\<close>

definition stack_peek :: "rpn_stack \<Rightarrow> rpn_error + int32" where
  "stack_peek st =
     (if stackpos st = 0 then Inl Stack_out_of_bounds
      else Inr (stack st ! (unat (stackpos st) - 1)))"

section \<open>Invariant and abstraction\<close>

definition abs_stack :: "rpn_stack \<Rightarrow> int32 list" where
  "abs_stack st = rev (take (unat (stackpos st)) (stack st))"

definition stack_inv :: "rpn_stack \<Rightarrow> bool" where
  "stack_inv st \<longleftrightarrow> length (stack st) = STACKSIZE \<and> unat (stackpos st) \<le> STACKSIZE"

text \<open>The list-level operations the array code implements.\<close>

definition push_list :: "int32 \<Rightarrow> int32 list \<Rightarrow> int32 list" where
  "push_list v xs = (if length xs < STACKSIZE then v # xs else xs)"

fun pop_list :: "int32 list \<Rightarrow> int32 list \<times> int32" where
  "pop_list [] = ([], 0)"
| "pop_list (x # xs) = (xs, x)"

section \<open>Refinement of the array operations\<close>

lemma stack_inv_length_abs:
  "stack_inv st \<Longrightarrow> length (abs_stack st) = unat (stackpos st)"
  by (simp add: stack_inv_def abs_stack_def)

lemma stack_push_abs [abs_simps]:
  assumes "stack_inv st"
  shows "abs_stack (stack_push v st) = push_list v (abs_stack st)"
proof (cases "STACKSIZE \<le> unat (stackpos st)")
  case True
  with assms show ?thesis
    by (simp add: stack_push_def push_list_def stack_inv_length_abs)
next
  case False
  with assms have "unat (stackpos st) < length (stack st)" "unat (stackpos st) < 1024"
    by (simp_all add: stack_inv_def STACKSIZE_def)
  with False assms show ?thesis
    by (simp add: stack_push_def push_list_def abs_stack_def take_Suc_update
        stack_inv_length_abs)
qed

lemma stack_pop_abs [abs_simps]:
  assumes "stack_inv st"
  shows "map_prod abs_stack id (stack_pop st) = pop_list (abs_stack st)"
proof (cases "stackpos st = 0")
  case True
  then show ?thesis by (simp add: stack_pop_def abs_stack_def)
next
  case False
  then have pos: "0 < unat (stackpos st)" by (simp add: unat_gt_0)
  with assms have "take (unat (stackpos st)) (stack st) =
      take (unat (stackpos st) - 1) (stack st) @ [stack st ! (unat (stackpos st) - 1)]"
    by (intro take_pred_live) (simp_all add: stack_inv_def)
  with False pos show ?thesis
    by (simp add: stack_pop_def abs_stack_def unat_pred Let_def)
qed

lemma stack_peek_abs [abs_simps]:
  assumes "stack_inv st"
  shows "stack_peek st = (case abs_stack st of [] \<Rightarrow> Inl Stack_out_of_bounds | x # _ \<Rightarrow> Inr x)"
proof (cases "stackpos st = 0")
  case True
  then show ?thesis by (simp add: stack_peek_def abs_stack_def)
next
  case False
  then have pos: "0 < unat (stackpos st)" by (simp add: unat_gt_0)
  with assms have "take (unat (stackpos st)) (stack st) =
      take (unat (stackpos st) - 1) (stack st) @ [stack st ! (unat (stackpos st) - 1)]"
    by (intro take_pred_live) (simp_all add: stack_inv_def)
  with False show ?thesis
    by (simp add: stack_peek_def abs_stack_def)
qed

lemma stack_pop_fst_abs [abs_simps]:
  "stack_inv st \<Longrightarrow> abs_stack (fst (stack_pop st)) = fst (pop_list (abs_stack st))"
  using stack_pop_abs[of st] by (cases "stack_pop st") (simp add: prod_eq_iff)

lemma stack_pop_snd [abs_simps]:
  "stack_inv st \<Longrightarrow> snd (stack_pop st) = snd (pop_list (abs_stack st))"
  using stack_pop_abs[of st] by (cases "stack_pop st") (simp add: prod_eq_iff)

lemma abs_stack_length_le: "stack_inv st \<Longrightarrow> length (abs_stack st) \<le> STACKSIZE"
  by (simp add: stack_inv_length_abs stack_inv_def)

lemma stackpos_pos_iff [abs_simps]:
  "stack_inv st \<Longrightarrow> (0 < stackpos st) = (abs_stack st \<noteq> [])"
  by (simp add: word_less_nat_alt stack_inv_length_abs flip: length_greater_0_conv)

lemma stackpos_gt1_iff [abs_simps]:
  "stack_inv st \<Longrightarrow> (1 < stackpos st) = (Suc 0 < length (abs_stack st))"
  by (simp add: word_less_nat_alt stack_inv_length_abs)

section \<open>The invariant is kept\<close>

lemma init_stack_inv: "stack_inv init_stack"
  by (simp add: stack_inv_def init_stack_def)

lemma stack_push_inv [inv_intros]: "stack_inv st \<Longrightarrow> stack_inv (stack_push v st)"
  by (simp add: stack_inv_def stack_push_def STACKSIZE_def)

lemma stack_pop_inv [inv_intros]: "stack_inv st \<Longrightarrow> stack_inv (fst (stack_pop st))"
  by (auto simp: stack_inv_def stack_pop_def Let_def unat_pred unat_gt_0)

lemma stack_pop_inv_eq [inv_intros]:
  "stack_pop st = (st', v) \<Longrightarrow> stack_inv st \<Longrightarrow> stack_inv st'"
  using stack_pop_inv[of st] by simp

lemma push_sequence_abs:
  "stack_inv st \<Longrightarrow>
   abs_stack (fold stack_push vs st) =
     rev (take (STACKSIZE - length (abs_stack st)) vs) @ abs_stack st \<and>
   stack_inv (fold stack_push vs st)"
proof (induction vs arbitrary: st)
  case Nil
  then show ?case by simp
next
  case (Cons v vs)
  have inv: "stack_inv (stack_push v st)" using Cons.prems by (rule stack_push_inv)
  have len: "length (abs_stack st) \<le> STACKSIZE" using Cons.prems by (rule abs_stack_length_le)
  show ?case
  proof (cases "length (abs_stack st) < STACKSIZE")
    case True
    then have "STACKSIZE - length (abs_stack st) = Suc (STACKSIZE - length (v # abs_stack st))"
      by simp
    with True Cons.IH[OF inv] Cons.prems show ?thesis
      by (simp add: stack_push_abs push_list_def)
  next
    case False
    with len have "STACKSIZE - length (abs_stack st) = 0" by simp
    with False Cons.IH[OF inv] Cons.prems show ?thesis
      by (simp add: stack_push_abs push_list_def)
  qed
qed

section \<open>Properties\<close>

text \<open>
  C22. Popping right after a push returns the pushed value and restores the
  depth and the live values, when the stack was not full.
\<close>

theorem stack_push_pop_roundtrip:
  assumes "stack_inv st" and "length (abs_stack st) < STACKSIZE"
  shows "snd (stack_pop (stack_push v st)) = v \<and>
         abs_stack (fst (stack_pop (stack_push v st))) = abs_stack st \<and>
         stackpos (fst (stack_pop (stack_push v st))) = stackpos st"
proof -
  have inv: "stack_inv (stack_push v st)" using assms(1) by (rule stack_push_inv)
  from assms have "unat (stackpos st) < 1024"
    by (simp add: stack_inv_length_abs STACKSIZE_def)
  with assms inv show ?thesis
    by (simp add: stack_pop_fst_abs stack_pop_snd stack_push_abs push_list_def)
       (simp add: stack_push_def stack_pop_def STACKSIZE_def Let_def)
qed

theorem stack_push_pop_roundtrip_witness:
  "stack_inv init_stack \<and> length (abs_stack init_stack) < STACKSIZE \<and>
   snd (stack_pop (stack_push 5 init_stack)) = 5"
proof -
  have h: "stack_inv init_stack" "length (abs_stack init_stack) < STACKSIZE"
    by (simp_all add: stack_inv_def init_stack_def abs_stack_def STACKSIZE_def)
  show ?thesis using stack_push_pop_roundtrip[OF h, of 5] h by simp
qed

text \<open>
  C23. Pushing any sequence of values onto the empty stack keeps the first
  \<open>STACKSIZE\<close> of them, the last kept on top, and silently drops the rest: 1025
  pushes leave the depth at 1024 with the first 1024 values intact.
\<close>

theorem push_sequence_keeps_first:
  "abs_stack (fold stack_push vs init_stack) = rev (take STACKSIZE vs) \<and>
   unat (stackpos (fold stack_push vs init_stack)) = min STACKSIZE (length vs)"
proof -
  have "abs_stack init_stack = []" by (simp add: init_stack_def abs_stack_def)
  with push_sequence_abs[OF init_stack_inv, of vs]
  have "abs_stack (fold stack_push vs init_stack) = rev (take STACKSIZE vs)"
       "stack_inv (fold stack_push vs init_stack)" by simp_all
  then show ?thesis by (simp add: stack_inv_length_abs[symmetric])
qed

text \<open>
  C24. Under the invariant the array operations are the list operations of a
  stack on the live cells, top first: \<open>stack_push\<close> is \<open>push_list\<close> (which
  drops the value on a full stack), \<open>stack_pop\<close> is \<open>pop_list\<close> (0 from an
  empty stack), \<open>stack_peek\<close> reads the top and is out of bounds exactly
  on an empty stack; push and pop keep the invariant.
\<close>

theorem stack_ops_refine:
  assumes "stack_inv st"
  shows "stack_inv (stack_push v st) \<and> abs_stack (stack_push v st) = push_list v (abs_stack st) \<and>
         stack_inv (fst (stack_pop st)) \<and> map_prod abs_stack id (stack_pop st) = pop_list (abs_stack st) \<and>
         stack_peek st = (case abs_stack st of [] \<Rightarrow> Inl Stack_out_of_bounds | x # _ \<Rightarrow> Inr x)"
  using assms by (simp add: stack_push_inv stack_push_abs stack_pop_inv stack_pop_abs stack_peek_abs)

theorem stack_ops_refine_witness:
  "stack_inv init_stack \<and> abs_stack (stack_push 9 init_stack) = [9] \<and>
   stack_peek init_stack = Inl Stack_out_of_bounds"
proof -
  have h: "stack_inv init_stack" by (rule init_stack_inv)
  have "abs_stack init_stack = []" by (simp add: init_stack_def abs_stack_def)
  then show ?thesis using stack_ops_refine[OF h, of 9] h by (simp add: push_list_def STACKSIZE_def)
qed

end
