(* ===== verification/Formatter.thy ===== *)
theory Formatter
  imports Host
begin

text \<open>
  The keystroke formatter of \<^verbatim>\<open>keymap.c\<close>: the table \<open>keyvalmap\<close> from a
  decimal digit to its host keycode and \<open>send_int(value)\<close>, which writes the
  twelve low decimal digits of \<open>value\<close> into \<open>outbuf\<close> (a \<open>uint16_t\<close>
  array) with C's \<open>%\<close> and \<open>/\<close>, then taps them from the most significant
  one, skipping leading zeros but never the last digit; its index loop is
  \<open>send_loop\<close>, proved equal to the list recursion \<open>send_digits\<close>. The specification
  \<open>format_integer\<close> says what this computes: the decimal digits of a
  non-negative value, and an out-of-bounds table read for a negative one
  (C's \<open>%\<close> is then negative, and its conversion to \<open>uint16_t\<close> is an
  index of at least 65527).
\<close>

section \<open>The code\<close>

definition keyvalmap :: "hid_keycode list" where
  "keyvalmap = [KC_0, KC_1, KC_2, KC_3, KC_4, KC_5, KC_6, KC_7, KC_8, KC_9]"

text \<open>The read \<open>keyvalmap[i]\<close>: out of bounds beyond the ten entries.\<close>

definition keyval :: "u16 \<Rightarrow> rpn_error + hid_keycode" where
  "keyval i =
     (if unat i < length keyvalmap then Inr (keyvalmap ! unat i) else Inl Keymap_out_of_bounds)"

text \<open>
  The second loop of \<open>send_int\<close>, \<open>for (i = 0; i < 12; ++i)\<close>: element \<open>i\<close>
  of the list is \<open>outbuf[i]\<close>, the remainder of the value after \<open>i\<close>
  divisions, converted to \<open>uint16_t\<close>. (The first loop zeroes the twelve
  cells that this one overwrites.)
\<close>

fun fill_outbuf :: "nat \<Rightarrow> int32 \<Rightarrow> u16 list" where
  "fill_outbuf 0 v = []"
| "fill_outbuf (Suc n) v = ucast (c_mod v 10) # fill_outbuf n (c_div v 10)"

text \<open>
  The third loop, \<open>for (int i = 11; i >= 0; --i)\<close>, over \<open>outbuf[i]\<close> from
  the top cell down. While \<open>start\<close> holds and \<open>i > 0\<close>, a zero cell is
  skipped (\<open>continue\<close>) and a non-zero one clears \<open>start\<close>; every cell not
  skipped is tapped through \<open>keyvalmap\<close>. The index is a C \<open>int\<close>, and the
  loop stops when it falls below 0; \<open>nat (i + 1)\<close>, the number of cells
  still to visit, decreases at each iteration.
\<close>

function send_loop :: "int \<Rightarrow> bool \<Rightarrow> u16 list \<Rightarrow> rpn_error + out_event list" where
  "send_loop i start outbuf =
     (if i < 0 then Inr []
      else if start \<and> 0 < i \<and> outbuf ! nat i = 0 then send_loop (i - 1) start outbuf
      else (case keyval (outbuf ! nat i) of
              Inl e \<Rightarrow> Inl e
            | Inr k \<Rightarrow>
                (case send_loop (i - 1) (if start \<and> 0 < i then False else start) outbuf of
                   Inl e \<Rightarrow> Inl e
                 | Inr evs \<Rightarrow> Inr (Tap_code k # evs))))"
  by pat_completeness auto
termination
  by (relation "measure (\<lambda>(i, start, outbuf). nat (i + 1))") auto

declare send_loop.simps [simp del]

text \<open>
  The same loop read on the list of the cells still to visit, top cell
  first: the guard \<open>i > 0\<close> is \<open>ds \<noteq> []\<close>. The lemmas about \<open>send_int\<close>
  are proved on this reading, which \<open>send_loop_digits\<close> shows equal to the
  loop.
\<close>

fun send_digits :: "bool \<Rightarrow> u16 list \<Rightarrow> rpn_error + out_event list" where
  "send_digits start [] = Inr []"
| "send_digits start (d # ds) =
     (if start \<and> ds \<noteq> [] \<and> d = 0 then send_digits start ds
      else (case keyval d of
              Inl e \<Rightarrow> Inl e
            | Inr k \<Rightarrow>
                (case send_digits (if start \<and> ds \<noteq> [] then False else start) ds of
                   Inl e \<Rightarrow> Inl e
                 | Inr evs \<Rightarrow> Inr (Tap_code k # evs))))"

definition send_int :: "int32 \<Rightarrow> rpn_error + out_event list" where
  "send_int v = send_loop 11 True (fill_outbuf 12 v)"

section \<open>The specification\<close>

text \<open>The decimal digits of a natural number, most significant first, no leading zero.\<close>

fun dec_digits :: "nat \<Rightarrow> nat list" where
  "dec_digits n = (if n < 10 then [n] else dec_digits (n div 10) @ [n mod 10])"

declare dec_digits.simps [simp del]

definition digit_taps :: "nat list \<Rightarrow> out_event list" where
  "digit_taps ds = map (\<lambda>d. Tap_code (keyvalmap ! d)) ds"

definition format_integer :: "int32 \<Rightarrow> rpn_error + out_event list" where
  "format_integer v =
     (if sint v < 0 then Inl Keymap_out_of_bounds
      else Inr (digit_taps (dec_digits (nat (sint v)))))"

section \<open>Digits\<close>

lemma dec_digits_small [simp]: "n < 10 \<Longrightarrow> dec_digits n = [n]"
  by (simp add: dec_digits.simps)

lemma dec_digits_big: "10 \<le> n \<Longrightarrow> dec_digits n = dec_digits (n div 10) @ [n mod 10]"
  by (subst dec_digits.simps) simp

lemma dec_digits_less_10: "d \<in> set (dec_digits n) \<Longrightarrow> d < 10"
proof (induction n rule: dec_digits.induct)
  case (1 n)
  then show ?case
    by (cases "n < 10") (auto simp: dec_digits_big)
qed

text \<open>
  With \<open>k + 1\<close> digit positions and a number of exactly that many digits, the
  fixed-width digit list read from the top position down is the decimal
  representation.
\<close>

lemma dec_digits_fixed:
  "10 ^ k \<le> n \<Longrightarrow> n < 10 ^ Suc k \<Longrightarrow>
   dec_digits n = map (\<lambda>j. n div 10 ^ j mod 10) (rev [0..<Suc k])"
proof (induction k arbitrary: n)
  case 0
  then show ?case by simp
next
  case (Suc k)
  then have "10 ^ k \<le> n div 10" "n div 10 < 10 ^ Suc k"
    by (auto simp: less_eq_div_iff_mult_less_eq div_less_iff_less_mult mult.commute)
  with Suc.IH have IH: "dec_digits (n div 10) =
      map (\<lambda>j. n div 10 div 10 ^ j mod 10) (rev [0..<Suc k])" by blast
  have "map (\<lambda>j. n div 10 ^ j mod 10) (rev [0..<Suc (Suc k)]) =
      map (\<lambda>j. n div 10 div 10 ^ j mod 10) (rev [0..<Suc k]) @ [n mod 10]"
    by (simp only: upt_0_Suc rev.simps map_append list.map rev_map map_map comp_def
        pow_Suc_div power_0 div_by_1)
  moreover from Suc.prems have "10 \<le> n"
    using order_trans[of 10 "10 ^ Suc k" n] by simp
  ultimately show ?case
    by (simp add: dec_digits_big IH)
qed

section \<open>The output loop and its list reading\<close>

lemma send_loop_digits:
  "n \<le> length xs \<Longrightarrow> send_loop (int n - 1) start xs = send_digits start (rev (take n xs))"
proof (induction n arbitrary: start)
  case 0
  then show ?case by (simp add: send_loop.simps)
next
  case (Suc m)
  then have m: "m < length xs" and le: "m \<le> length xs" by simp_all
  then have ne: "xs \<noteq> []" by auto
  have r: "rev (take (Suc m) xs) = xs ! m # rev (take m xs)"
    using m by (simp add: take_Suc_conv_app_nth)
  have i: "int (Suc m) - 1 = int m" by simp
  have g: "send_loop (int m - 1) b xs = send_digits b (rev (take m xs))" for b
    using Suc.IH[OF le] .
  show ?case
    by (simp only: i r, subst send_loop.simps, simp only: g) (auto simp: ne)
qed

lemma length_fill_outbuf [simp]: "length (fill_outbuf n v) = n"
  by (induction n arbitrary: v) simp_all

lemma send_int_digits: "send_int v = send_digits True (rev (fill_outbuf 12 v))"
  using send_loop_digits[of 12 "fill_outbuf 12 v" True] by (simp add: send_int_def)

section \<open>Non-negative values\<close>

lemma ucast_c_mod_nonneg:
  "0 \<le> sint v \<Longrightarrow> (ucast (c_mod v 10) :: u16) = of_nat (nat (sint v) mod 10)"
proof -
  assume v: "0 \<le> sint v"
  then have "c_mod v 10 = word_of_int (sint v mod 10)"
    by (simp add: c_mod_def smod_10_nonneg)
  also have "\<dots> = of_nat (nat (sint v) mod 10)"
    using v by (simp add: nat_mod_distrib flip: of_nat_nat)
  finally show ?thesis
    by (simp add: unsigned_of_nat take_bit_nat_eq_self)
qed

lemma fill_outbuf_nonneg:
  "0 \<le> sint v \<Longrightarrow>
   fill_outbuf k v = map (\<lambda>j. of_nat (nat (sint v) div 10 ^ j mod 10)) [0..<k]"
proof (induction k arbitrary: v)
  case 0
  then show ?case by simp
next
  case (Suc k)
  have q: "sint (c_div v 10) = sint v div 10" and "0 \<le> sint v div 10"
    using Suc.prems by (simp_all add: sdiv_10_nonneg)
  then have "fill_outbuf k (c_div v 10) =
      map (\<lambda>j. of_nat (nat (sint v) div 10 div 10 ^ j mod 10)) [0..<k]"
    by (simp add: Suc.IH nat_div_distrib)
  with Suc.prems show ?case
    by (simp only: upt_0_Suc list.map map_map comp_def pow_Suc_div ucast_c_mod_nonneg
        power_0 div_by_1 fill_outbuf.simps)
qed

lemma send_digits_plain:
  "\<forall>d \<in> set ds. d < 10 \<Longrightarrow> send_digits False (map of_nat ds) = Inr (digit_taps ds)"
  by (induction ds) (auto simp: keyval_def keyvalmap_def digit_taps_def unat_of_nat)

lemma send_digits_lead:
  "0 < m \<Longrightarrow> m < 10 \<Longrightarrow>
   send_digits True (of_nat m # ds) = map_sum id (Cons (Tap_code (keyvalmap ! m))) (send_digits False ds)"
proof -
  assume m: "0 < m" "m < 10"
  then have "(of_nat m :: u16) \<noteq> 0" "unat (of_nat m :: u16) = m"
    by (simp_all add: unat_of_nat flip: unat_0_iff)
  with m show ?thesis
    by (cases "ds = []") (simp_all add: keyval_def keyvalmap_def split: sum.split)
qed

lemma send_digits_fixed:
  "n < 10 ^ Suc k \<Longrightarrow>
   send_digits True (map (\<lambda>j. of_nat (n div 10 ^ j mod 10)) (rev [0..<Suc k])) =
   Inr (digit_taps (dec_digits n))"
proof (induction k)
  case 0
  then show ?case
    by (simp add: keyval_def keyvalmap_def digit_taps_def unat_of_nat)
next
  case (Suc k)
  let ?d = "\<lambda>j. n div 10 ^ j mod 10"
  let ?rest = "map ?d (rev [0..<Suc k])"
  show ?case
  proof (cases "n < 10 ^ Suc k")
    case True
    then have "?d (Suc k) = 0" by simp
    with True Suc.IH show ?thesis by simp
  next
    case False
    let ?m = "n div 10 ^ Suc k"
    have m10: "?m < 10"
      using Suc.prems by (simp add: div_less_iff_less_mult mult.commute)
    have m0: "0 < ?m"
      using False by (simp add: div_greater_zero_iff)
    have top: "?d (Suc k) = ?m" "0 < ?m" "?m < 10"
      using m10 m0 by simp_all
    have list: "map (\<lambda>j. of_nat (?d j)) (rev [0..<Suc (Suc k)]) = of_nat ?m # map of_nat ?rest"
      using top(1) by (simp del: power_Suc upt_Suc add: upt_Suc_append)
    have rest: "send_digits False (map of_nat ?rest) = Inr (digit_taps ?rest)"
      by (rule send_digits_plain) auto
    have "dec_digits n = map ?d (rev [0..<Suc (Suc k)])"
      using False Suc.prems by (intro dec_digits_fixed) simp_all
    then have "dec_digits n = ?m # ?rest"
      using top(1) by (simp del: power_Suc upt_Suc add: upt_Suc_append)
    with top(2,3) show ?thesis
      by (simp only: list send_digits_lead rest) (simp add: digit_taps_def)
  qed
qed


lemma send_int_nonneg:
  "0 \<le> sint v \<Longrightarrow> send_int v = Inr (digit_taps (dec_digits (nat (sint v))))"
proof -
  assume v: "0 \<le> sint v"
  have "nat (sint v) < 10 ^ Suc 11"
    using v sint_int32_range[of v] by (simp add: nat_less_iff)
  then show ?thesis
    using send_digits_fixed[of "nat (sint v)" 11] v
    by (simp add: send_int_digits fill_outbuf_nonneg rev_map del: upt_Suc)
qed

section \<open>Negative values\<close>

text \<open>
  A remainder in \<open>-9 .. 0\<close>, converted to \<open>uint16_t\<close>, is either 0 or an index
  of at least 65527: never a valid index of \<open>keyvalmap\<close> other than 0.
\<close>

lemma ucast_small_nonpos:
  "sint (c::int32) \<in> {-9..0} \<Longrightarrow> c = 0 \<or> 10 \<le> unat (ucast c :: u16)"
proof -
  assume a: "sint c \<in> {-9..0}"
  have c: "c = word_of_int (sint c)" by simp
  from a have "sint c \<in> {-9, -8, -7, -6, -5, -4, -3, -2, -1, 0}"
    by (simp add: atLeastAtMost_iff) arith
  then have "c \<in> word_of_int ` {-9, -8, -7, -6, -5, -4, -3, -2, -1, 0}"
    using c by (rule rev_image_eqI)
  then show ?thesis by (auto simp: unsigned_minus_1_eq_mask mask_eq_exp_minus_1)
qed

lemma c_mod_nonpos_cell:
  "sint v \<le> 0 \<Longrightarrow> c_mod v 10 = 0 \<or> 10 \<le> unat (ucast (c_mod v 10) :: u16)"
  by (rule ucast_small_nonpos) (simp add: smod_10_nonpos)

lemma fill_outbuf_nonpos_cells:
  "sint v \<le> 0 \<Longrightarrow> \<forall>d \<in> set (fill_outbuf k v). d = 0 \<or> 10 \<le> unat d"
proof (induction k arbitrary: v)
  case 0
  then show ?case by simp
next
  case (Suc k)
  have "sint (c_div v 10) \<le> 0"
    using Suc.prems by (simp add: sdiv_10_nonpos)
  then have "\<forall>d \<in> set (fill_outbuf k (c_div v 10)). d = 0 \<or> 10 \<le> unat d"
    by (rule Suc.IH)
  with c_mod_nonpos_cell[OF Suc.prems] show ?case
    by auto
qed

lemma fill_outbuf_neg_nonzero:
  "sint v < 0 \<Longrightarrow> - sint v < 10 ^ k \<Longrightarrow> \<exists>d \<in> set (fill_outbuf k v). d \<noteq> 0"
proof (induction k arbitrary: v)
  case 0
  then show ?case by simp
next
  case (Suc k)
  show ?case
  proof (cases "c_mod v 10 = 0")
    case False
    with c_mod_nonpos_cell[of v] Suc.prems have "(ucast (c_mod v 10) :: u16) \<noteq> 0"
      by (auto simp flip: unat_0_iff)
    then show ?thesis by simp
  next
    case True
    then have "sint (c_mod v 10) = 0" by simp
    with Suc.prems have m: "(- sint v) mod 10 = 0"
      by (simp add: smod_10_nonpos)
    have q: "sint (c_div v 10) = - ((- sint v) div 10)"
      using Suc.prems by (simp add: sdiv_10_nonpos)
    from m Suc.prems have "0 < (- sint v) div 10" "(- sint v) div 10 < 10 ^ k"
      by (auto simp: zdiv_eq_0_iff dest: mod_eq_0_iff_dvd[THEN iffD1])
    with q Suc.IH[of "c_div v 10"] show ?thesis by auto
  qed
qed

lemma send_digits_oob:
  "\<forall>d \<in> set ds. d = 0 \<or> 10 \<le> unat d \<Longrightarrow> \<exists>d \<in> set ds. d \<noteq> 0 \<Longrightarrow>
   send_digits start ds = Inl Keymap_out_of_bounds"
proof (induction ds arbitrary: start)
  case Nil
  then show ?case by simp
next
  case (Cons d ds)
  show ?case
  proof (cases "d = 0")
    case True
    with Cons.prems have "ds \<noteq> []" "\<exists>d \<in> set ds. d \<noteq> 0" by auto
    with True Cons.IH Cons.prems show ?thesis
      by (simp add: keyval_def keyvalmap_def)
  next
    case False
    with Cons.prems have "\<not> unat d < 10" by auto
    with False show ?thesis by (simp add: keyval_def keyvalmap_def)
  qed
qed

lemma send_int_negative:
  "sint v < 0 \<Longrightarrow> send_int v = Inl Keymap_out_of_bounds"
proof -
  assume v: "sint v < 0"
  have "- sint v < 10 ^ 12"
    using sint_int32_range[of v] by simp
  with v have "\<exists>d \<in> set (fill_outbuf 12 v). d \<noteq> 0"
    by (rule fill_outbuf_neg_nonzero)
  moreover from v have "\<forall>d \<in> set (fill_outbuf 12 v). d = 0 \<or> 10 \<le> unat d"
    by (intro fill_outbuf_nonpos_cells) simp
  ultimately show ?thesis
    unfolding send_int_digits by (intro send_digits_oob) simp_all
qed

section \<open>The formatter against its specification\<close>

lemma send_int_format: "send_int v = format_integer v"
  by (simp add: format_integer_def send_int_nonneg send_int_negative)

section \<open>Properties\<close>

text \<open>
  C4. \<open>send_int\<close> types the decimal digits of a non-negative value, most
  significant first, with no leading zero; for every negative value it reads
  \<open>keyvalmap\<close> out of bounds, since C's \<open>%\<close> then yields a negative
  remainder that \<open>outbuf\<close>, an \<open>uint16_t\<close> array, stores as an index of at
  least 65527. No minus sign is ever typed.
\<close>

theorem send_int_correct:
  "send_int v =
     (if sint v < 0 then Inl Keymap_out_of_bounds
      else Inr (map (\<lambda>d. Tap_code (keyvalmap ! d)) (dec_digits (nat (sint v)))))"
  by (simp add: send_int_nonneg send_int_negative digit_taps_def)

end
