(* ===== verification/Calculator.thy ===== *)
theory Calculator
  imports InputBuffer Stack Formatter
begin

text \<open>
  The key handler of \<^verbatim>\<open>keymap.c\<close>: the custom keycodes, the processing
  state, \<open>input_push\<close> (commit the typed digits onto the stack) and
  \<open>process_record_user\<close>, whose \<open>switch\<close> has one case per key. Each case
  is a definition here, and each operator case is \<open>commit_then\<close> of its body,
  as the code calls \<open>input_push()\<close> first. A handler call returns the new
  state and the output events it produced, or the undefined behaviour it
  reached. The calculator state is the three globals \<open>stack\<close>/\<open>stackpos\<close>,
  \<open>inbuf\<close>/\<open>inbufpos\<close> and \<open>state\<close>.
\<close>

section \<open>Keycodes, state and the commit step\<close>

datatype rpn_state = S_NUMBER

datatype custom_keycodes =
    RPN_0 | RPN_1 | RPN_2 | RPN_3 | RPN_4 | RPN_5 | RPN_6 | RPN_7 | RPN_8 | RPN_9
  | RPN_ENTER | RPN_BSPC | RPN_ADD | RPN_SUB | RPN_NEG | RPN_DIV | RPN_MUL | RPN_DUP
  | RPN_POP | RPN_PEEK | RPN_SWAP | RPN_LIST

text \<open>The digit key of a decimal digit (the inverse of the \<open>DO_NUMBER\<close> cases).\<close>

definition digit_key :: "nat \<Rightarrow> custom_keycodes" where
  "digit_key d = [RPN_0, RPN_1, RPN_2, RPN_3, RPN_4, RPN_5, RPN_6, RPN_7, RPN_8, RPN_9] ! d"

text \<open>A keycode reaching the handler: one of ours, or any other host keycode.\<close>

datatype keycode = Custom custom_keycodes | Host_key u16

record calc =
  stk :: rpn_stack
  inp :: input_buffer
  state :: rpn_state

definition init_calc :: calc where
  "init_calc = \<lparr>stk = init_stack, inp = init_input, state = S_NUMBER\<rparr>"

type_synonym step_result = "rpn_error + calc \<times> out_event list"

text \<open>\<open>input_push()\<close>: when digits are pending, drain them and push the value.\<close>

definition input_push :: "calc \<Rightarrow> calc \<times> out_event list" where
  "input_push s =
     (if 0 < inbufpos (inp s) then
        (let (ib, v) = pop_inbuf (inp s)
         in (s\<lparr>inp := ib, stk := stack_push v (stk s)\<rparr>, [Send_string (''<'' @ newline)]))
      else (s, []))"

text \<open>An operator case: \<open>input_push()\<close>, then the body on the resulting state.\<close>

definition commit_then :: "(calc \<Rightarrow> step_result) \<Rightarrow> calc \<Rightarrow> step_result" where
  "commit_then body s =
     (let (s1, out1) = input_push s
      in (case body s1 of Inl e \<Rightarrow> Inl e | Inr (s2, out2) \<Rightarrow> Inr (s2, out1 @ out2)))"

section \<open>The cases of the switch\<close>

text \<open>\<open>DO_NUMBER(n)\<close>: echo the digit character, then record the digit.\<close>

definition do_number :: "nat \<Rightarrow> calc \<Rightarrow> step_result" where
  "do_number n s =
     Inr (s\<lparr>inp := record_input (of_nat n) (inp s)\<rparr>, [Send_string [char_of (48 + n)]])"

definition rpn_bspc :: "calc \<Rightarrow> step_result" where
  "rpn_bspc s = Inr (s\<lparr>inp := backspace_input (inp s)\<rparr>, [Tap_code KC_BSPC])"

definition pop_body :: "calc \<Rightarrow> step_result" where
  "pop_body s =
     (if 0 < stackpos (stk s) then
        (let (st, v) = stack_pop (stk s)
         in (case send_int v of
               Inl e \<Rightarrow> Inl e
             | Inr taps \<Rightarrow>
                 Inr (s\<lparr>stk := st\<rparr>, [Send_string ''> ''] @ taps @ [Send_string newline])))
      else Inr (s, [Send_string (''# empty'' @ newline)]))"

definition peek_body :: "calc \<Rightarrow> step_result" where
  "peek_body s =
     (if 0 < stackpos (stk s) then
        (case stack_peek (stk s) of
           Inl e \<Rightarrow> Inl e
         | Inr v \<Rightarrow>
             (case send_int v of
                Inl e \<Rightarrow> Inl e
              | Inr taps \<Rightarrow> Inr (s, [Send_string ''# ''] @ taps @ [Send_string newline])))
      else Inr (s, [Send_string (''# empty'' @ newline)]))"

text \<open>
  \<open>stack_push(stack_pop() + stack_pop())\<close>: C leaves the order of the two pops
  unspecified; \<open>x\<close> is the pop evaluated first. Addition (and, below,
  multiplication) commutes, so both orders give the same result.
\<close>

definition add_body :: "calc \<Rightarrow> step_result" where
  "add_body s =
     (if 1 < stackpos (stk s) then
        (let (st1, x) = stack_pop (stk s); (st2, y) = stack_pop st1
         in Inr (s\<lparr>stk := stack_push (x + y) st2\<rparr>, [Send_string (''+'' @ newline)]))
      else Inr (s, [Send_string (''# can't +'' @ newline)]))"

definition sub_body :: "calc \<Rightarrow> step_result" where
  "sub_body s =
     (if 1 < stackpos (stk s) then
        (let (st1, v) = stack_pop (stk s); (st2, a) = stack_pop st1
         in Inr (s\<lparr>stk := stack_push (a - v) st2\<rparr>, [Send_string (''-'' @ newline)]))
      else Inr (s, [Send_string (''# can't -'' @ newline)]))"

definition neg_body :: "calc \<Rightarrow> step_result" where
  "neg_body s =
     (if 0 < stackpos (stk s) then
        (let (st1, a) = stack_pop (stk s)
         in Inr (s\<lparr>stk := stack_push (- a) st1\<rparr>, [Send_string (''-.'' @ newline)]))
      else Inr (s, [Send_string (''# can't negate'' @ newline)]))"

definition mul_body :: "calc \<Rightarrow> step_result" where
  "mul_body s =
     (if 1 < stackpos (stk s) then
        (let (st1, x) = stack_pop (stk s); (st2, y) = stack_pop st1
         in Inr (s\<lparr>stk := stack_push (x * y) st2\<rparr>, [Send_string (''*'' @ newline)]))
      else Inr (s, [Send_string (''# can't *'' @ newline)]))"

text \<open>\<open>stack_push(stack_pop() / v)\<close> traps when \<open>v = 0\<close>.\<close>

definition div_body :: "calc \<Rightarrow> step_result" where
  "div_body s =
     (if 1 < stackpos (stk s) then
        (let (st1, v) = stack_pop (stk s); (st2, a) = stack_pop st1
         in if v = 0 then Inl Division_by_zero
            else Inr (s\<lparr>stk := stack_push (c_div a v) st2\<rparr>, [Send_string (''/'' @ newline)]))
      else Inr (s, [Send_string (''# can't /'' @ newline)]))"

definition dup_body :: "calc \<Rightarrow> step_result" where
  "dup_body s =
     (if 0 < stackpos (stk s) then
        (let (st1, v) = stack_pop (stk s)
         in Inr (s\<lparr>stk := stack_push v (stack_push v st1)\<rparr>, [Send_string (''dup'' @ newline)]))
      else Inr (s, [Send_string (''# can't dup'' @ newline)]))"

definition swap_body :: "calc \<Rightarrow> step_result" where
  "swap_body s =
     (if 1 < stackpos (stk s) then
        (let (st1, v1) = stack_pop (stk s); (st2, v2) = stack_pop st1
         in Inr (s\<lparr>stk := stack_push v2 (stack_push v1 st2)\<rparr>, [Send_string (''swap'' @ newline)]))
      else Inr (s, [Send_string (''# can't dup'' @ newline)]))"

text \<open>
  The loop of the \<open>RPN_LIST\<close> case, \<open>for (int i = stackpos - 1; i >= 0; --i)\<close>,
  over the C \<open>int\<close> index: cell \<open>i\<close> is printed as a line \<open># \<close> and its
  digits, the top first; \<open>nat (i + 1)\<close> decreases at each iteration.
\<close>

function dump_for :: "int \<Rightarrow> int32 list \<Rightarrow> rpn_error + out_event list" where
  "dump_for i cells =
     (if i < 0 then Inr []
      else (case send_int (cells ! nat i) of
              Inl e \<Rightarrow> Inl e
            | Inr taps \<Rightarrow>
                (case dump_for (i - 1) cells of
                   Inl e \<Rightarrow> Inl e
                 | Inr rest \<Rightarrow> Inr ([Send_string ''# ''] @ taps @ [Send_string newline] @ rest))))"
  by pat_completeness auto
termination
  by (relation "measure (\<lambda>(i, cells). nat (i + 1))") auto

declare dump_for.simps [simp del]

text \<open>
  The same loop counting the iterations left, the form the proofs use:
  the call for \<open>Suc i\<close> prints cell \<open>i\<close>.
\<close>

fun dump_loop :: "nat \<Rightarrow> int32 list \<Rightarrow> rpn_error + out_event list" where
  "dump_loop 0 cells = Inr []"
| "dump_loop (Suc i) cells =
     (case send_int (cells ! i) of
        Inl e \<Rightarrow> Inl e
      | Inr taps \<Rightarrow>
          (case dump_loop i cells of
             Inl e \<Rightarrow> Inl e
           | Inr rest \<Rightarrow> Inr ([Send_string ''# ''] @ taps @ [Send_string newline] @ rest)))"

definition list_body :: "calc \<Rightarrow> step_result" where
  "list_body s =
     (case dump_for (int (unat (stackpos (stk s))) - 1) (stack (stk s)) of
        Inl e \<Rightarrow> Inl e
      | Inr lines \<Rightarrow>
          Inr (s, [Send_string (''#   begin stack dump'' @ newline)] @ lines @
                  [Send_string (''#   end stack dump'' @ newline)]))"

section \<open>The handler\<close>

text \<open>The \<open>switch (kc)\<close> of state \<open>S_NUMBER\<close>.\<close>

fun rpn_key :: "custom_keycodes \<Rightarrow> calc \<Rightarrow> step_result" where
  "rpn_key RPN_0 s = do_number 0 s"
| "rpn_key RPN_1 s = do_number 1 s"
| "rpn_key RPN_2 s = do_number 2 s"
| "rpn_key RPN_3 s = do_number 3 s"
| "rpn_key RPN_4 s = do_number 4 s"
| "rpn_key RPN_5 s = do_number 5 s"
| "rpn_key RPN_6 s = do_number 6 s"
| "rpn_key RPN_7 s = do_number 7 s"
| "rpn_key RPN_8 s = do_number 8 s"
| "rpn_key RPN_9 s = do_number 9 s"
| "rpn_key RPN_BSPC s = rpn_bspc s"
| "rpn_key RPN_ENTER s = Inr (input_push s)"
| "rpn_key RPN_POP s = commit_then pop_body s"
| "rpn_key RPN_PEEK s = commit_then peek_body s"
| "rpn_key RPN_ADD s = commit_then add_body s"
| "rpn_key RPN_SUB s = commit_then sub_body s"
| "rpn_key RPN_NEG s = commit_then neg_body s"
| "rpn_key RPN_MUL s = commit_then mul_body s"
| "rpn_key RPN_DIV s = commit_then div_body s"
| "rpn_key RPN_DUP s = commit_then dup_body s"
| "rpn_key RPN_SWAP s = commit_then swap_body s"
| "rpn_key RPN_LIST s = commit_then list_body s"

text \<open>
  \<open>process_record_user(kc, record)\<close>: only key-down events are handled, and
  only our keycodes have a case. (The C function always returns \<open>true\<close>.)
\<close>

definition process_record_user :: "keycode \<Rightarrow> bool \<Rightarrow> calc \<Rightarrow> step_result" where
  "process_record_user kc pressed s =
     (if pressed then
        (case state s of
           S_NUMBER \<Rightarrow> (case kc of Custom k \<Rightarrow> rpn_key k s | Host_key _ \<Rightarrow> Inr (s, [])))
      else Inr (s, []))"

section \<open>The invariant\<close>

definition calc_inv :: "calc \<Rightarrow> bool" where
  "calc_inv s \<longleftrightarrow> stack_inv (stk s) \<and> input_inv (inp s)"

lemma dump_for_loop: "dump_for (int n - 1) cells = dump_loop n cells"
proof (induction n)
  case 0
  then show ?case by (simp add: dump_for.simps)
next
  case (Suc k)
  have i: "int (Suc k) - 1 = int k" by simp
  show ?case
    by (simp only: i, subst dump_for.simps, simp only: Suc.IH) simp
qed

lemma list_body_by_loop:
  "list_body s =
     (case dump_loop (unat (stackpos (stk s))) (stack (stk s)) of
        Inl e \<Rightarrow> Inl e
      | Inr lines \<Rightarrow>
          Inr (s, [Send_string (''#   begin stack dump'' @ newline)] @ lines @
                  [Send_string (''#   end stack dump'' @ newline)]))"
  by (simp only: list_body_def dump_for_loop)

lemmas body_defs = pop_body_def peek_body_def add_body_def sub_body_def neg_body_def
  mul_body_def div_body_def dup_body_def swap_body_def list_body_by_loop

lemma init_calc_inv: "calc_inv init_calc"
  by (simp add: calc_inv_def init_calc_def init_stack_inv init_input_inv)

lemma input_push_inv [inv_intros]: "calc_inv s \<Longrightarrow> calc_inv (fst (input_push s))"
  by (auto simp: input_push_def calc_inv_def split: prod.split intro: inv_intros)

lemma commit_then_inv:
  assumes body: "\<And>s s' out. calc_inv s \<Longrightarrow> body s = Inr (s', out) \<Longrightarrow> calc_inv s'"
    and "calc_inv s" and "commit_then body s = Inr (s', out)"
  shows "calc_inv s'"
proof -
  obtain s1 out1 where push: "input_push s = (s1, out1)" by (cases "input_push s")
  with assms(2) have "calc_inv s1" using input_push_inv[of s] by simp
  with assms(3) push show ?thesis
    by (auto simp: commit_then_def split: sum.splits intro: body)
qed

lemma body_inv:
  "body \<in> {pop_body, peek_body, add_body, sub_body, neg_body, mul_body, div_body, dup_body,
     swap_body, list_body} \<Longrightarrow> calc_inv s \<Longrightarrow> body s = Inr (s', out) \<Longrightarrow> calc_inv s'"
  by (auto simp: body_defs calc_inv_def Let_def split_def split: if_splits sum.splits
      intro!: stack_push_inv stack_pop_inv)

lemma commit_body_inv:
  "commit_then body s = Inr (s', out) \<Longrightarrow> calc_inv s \<Longrightarrow>
   body \<in> {pop_body, peek_body, add_body, sub_body, neg_body, mul_body, div_body, dup_body,
     swap_body, list_body} \<Longrightarrow> calc_inv s'"
  by (rule commit_then_inv[where body = body]) (auto intro: body_inv)

lemma do_number_inv:
  "do_number n s = Inr (s', out) \<Longrightarrow> calc_inv s \<Longrightarrow> n < 10 \<Longrightarrow> calc_inv s'"
  by (auto simp: do_number_def calc_inv_def unat_of_nat intro!: record_input_inv)

lemma rpn_bspc_inv: "rpn_bspc s = Inr (s', out) \<Longrightarrow> calc_inv s \<Longrightarrow> calc_inv s'"
  by (auto simp: rpn_bspc_def calc_inv_def intro!: backspace_input_inv)

lemma rpn_key_inv [inv_intros]:
  assumes "calc_inv s" and "rpn_key k s = Inr (s', out)"
  shows "calc_inv s'"
  using assms input_push_inv[of s]
  by (cases k) (auto dest: do_number_inv rpn_bspc_inv commit_body_inv)

lemma process_record_user_inv [inv_intros]:
  "calc_inv s \<Longrightarrow> process_record_user kc pressed s = Inr (s', out) \<Longrightarrow> calc_inv s'"
  by (auto simp: process_record_user_def split: if_splits rpn_state.splits keycode.splits
      intro: rpn_key_inv)

section \<open>Runs and reachable states\<close>

text \<open>
  The host calls the handler once per key event and finishes each call before
  the next (spec, section 5). A run over key-down events is the composition
  of the calls; it stops at the first undefined behaviour.
\<close>

fun run_keys :: "keycode list \<Rightarrow> calc \<Rightarrow> step_result" where
  "run_keys [] s = Inr (s, [])"
| "run_keys (k # ks) s =
     (case process_record_user k True s of
        Inl e \<Rightarrow> Inl e
      | Inr (s1, out1) \<Rightarrow>
          (case run_keys ks s1 of Inl e \<Rightarrow> Inl e | Inr (s2, out2) \<Rightarrow> Inr (s2, out1 @ out2)))"

text \<open>The states the firmware can reach from its start, key-down or key-up events alike.\<close>

inductive reachable :: "calc \<Rightarrow> bool" where
  init: "reachable init_calc"
| step: "reachable s \<Longrightarrow> process_record_user kc pressed s = Inr (s', out) \<Longrightarrow> reachable s'"

inductive_cases reachable_stepE: "reachable s'"

lemma reachable_calc_inv: "reachable s \<Longrightarrow> calc_inv s"
proof (induction rule: reachable.induct)
  case init
  show ?case by (rule init_calc_inv)
next
  case (step s kc pressed s' out)
  then show ?case by (blast intro: process_record_user_inv)
qed

lemma run_keys_reachable:
  "reachable s \<Longrightarrow> run_keys ks s = Inr (s', out) \<Longrightarrow> reachable s'"
proof (induction ks arbitrary: s out)
  case Nil
  then show ?case by simp
next
  case (Cons k ks)
  then show ?case
    by (auto split: sum.splits prod.splits intro: reachable.step)
qed

end
