(* ===== verification/RpnSpec.thy ===== *)
theory RpnSpec
  imports Calculator
begin

text \<open>
  The calculator as the specification describes it (sections 4.1 and 4.2 of
  the spec): a list of values with the top first, bounded by \<open>STACKSIZE\<close>,
  and a list of pending digits, bounded by \<open>MAX_INPUT\<close>. Every key is one
  operation on these lists; the messages are those the keymap sends. The
  operations compute with the list patterns \<open>b # a # rest\<close> of a stack
  machine, not with arrays and counters; \<open>abs_calc\<close> maps a state of the
  code to this one, and the theory \<open>Refinement\<close> shows that the handler of
  the code computes, key by key, what this machine computes.
\<close>

section \<open>Abstract state\<close>

record rpn_abs =
  a_stack :: "int32 list"
  a_input :: "u8 list"

definition abs_calc :: "calc \<Rightarrow> rpn_abs" where
  "abs_calc s = \<lparr>a_stack = abs_stack (stk s), a_input = abs_input (inp s)\<rparr>"

type_synonym spec_result = "rpn_error + rpn_abs \<times> out_event list"

section \<open>Operations\<close>

text \<open>Committing pending input: its decimal value, in 32 bits, is pushed.\<close>

definition spec_commit :: "rpn_abs \<Rightarrow> rpn_abs \<times> out_event list" where
  "spec_commit a =
     (if a_input a = [] then (a, [])
      else (\<lparr>a_stack = push_list (of_nat (dec_val (a_input a))) (a_stack a), a_input = []\<rparr>,
            [Send_string (''<'' @ newline)]))"

definition spec_then :: "(rpn_abs \<Rightarrow> spec_result) \<Rightarrow> rpn_abs \<Rightarrow> spec_result" where
  "spec_then op a =
     (let (a1, out1) = spec_commit a
      in (case op a1 of Inl e \<Rightarrow> Inl e | Inr (a2, out2) \<Rightarrow> Inr (a2, out1 @ out2)))"

text \<open>
  A binary operator: pop \<open>b\<close>, pop \<open>a\<close>, push \<open>f a b\<close>, or report that fewer
  than two values are there.
\<close>

fun spec_binop ::
  "(int32 \<Rightarrow> int32 \<Rightarrow> rpn_error + int32) \<Rightarrow> string \<Rightarrow> string \<Rightarrow> rpn_abs \<Rightarrow> spec_result" where
  "spec_binop f ok err a =
     (case a_stack a of
        b # x # rest \<Rightarrow>
          (case f x b of
             Inl e \<Rightarrow> Inl e
           | Inr r \<Rightarrow> Inr (a\<lparr>a_stack := r # rest\<rparr>, [Send_string (ok @ newline)]))
      | _ \<Rightarrow> Inr (a, [Send_string (err @ newline)]))"

definition spec_div :: "int32 \<Rightarrow> int32 \<Rightarrow> rpn_error + int32" where
  "spec_div x b = (if b = 0 then Inl Division_by_zero else Inr (c_div x b))"

definition spec_neg :: "rpn_abs \<Rightarrow> spec_result" where
  "spec_neg a =
     (case a_stack a of
        v # rest \<Rightarrow> Inr (a\<lparr>a_stack := - v # rest\<rparr>, [Send_string (''-.'' @ newline)])
      | [] \<Rightarrow> Inr (a, [Send_string (''# can't negate'' @ newline)]))"

text \<open>\<open>dup\<close> pushes a second copy, which a full stack drops.\<close>

definition spec_dup :: "rpn_abs \<Rightarrow> spec_result" where
  "spec_dup a =
     (case a_stack a of
        v # rest \<Rightarrow> Inr (a\<lparr>a_stack := push_list v (v # rest)\<rparr>, [Send_string (''dup'' @ newline)])
      | [] \<Rightarrow> Inr (a, [Send_string (''# can't dup'' @ newline)]))"

definition spec_swap :: "rpn_abs \<Rightarrow> spec_result" where
  "spec_swap a =
     (case a_stack a of
        v1 # v2 # rest \<Rightarrow>
          Inr (a\<lparr>a_stack := v2 # v1 # rest\<rparr>, [Send_string (''swap'' @ newline)])
      | _ \<Rightarrow> Inr (a, [Send_string (''# can't dup'' @ newline)]))"

definition spec_pop :: "rpn_abs \<Rightarrow> spec_result" where
  "spec_pop a =
     (case a_stack a of
        v # rest \<Rightarrow>
          (case format_integer v of
             Inl e \<Rightarrow> Inl e
           | Inr taps \<Rightarrow>
               Inr (a\<lparr>a_stack := rest\<rparr>, [Send_string ''> ''] @ taps @ [Send_string newline]))
      | [] \<Rightarrow> Inr (a, [Send_string (''# empty'' @ newline)]))"

definition spec_peek :: "rpn_abs \<Rightarrow> spec_result" where
  "spec_peek a =
     (case a_stack a of
        v # _ \<Rightarrow>
          (case format_integer v of
             Inl e \<Rightarrow> Inl e
           | Inr taps \<Rightarrow> Inr (a, [Send_string ''# ''] @ taps @ [Send_string newline]))
      | [] \<Rightarrow> Inr (a, [Send_string (''# empty'' @ newline)]))"

text \<open>The stack dump: one line per value, top first.\<close>

fun spec_dump :: "int32 list \<Rightarrow> rpn_error + out_event list" where
  "spec_dump [] = Inr []"
| "spec_dump (v # vs) =
     (case format_integer v of
        Inl e \<Rightarrow> Inl e
      | Inr taps \<Rightarrow>
          (case spec_dump vs of
             Inl e \<Rightarrow> Inl e
           | Inr rest \<Rightarrow> Inr ([Send_string ''# ''] @ taps @ [Send_string newline] @ rest)))"

definition spec_list :: "rpn_abs \<Rightarrow> spec_result" where
  "spec_list a =
     (case spec_dump (a_stack a) of
        Inl e \<Rightarrow> Inl e
      | Inr lines \<Rightarrow>
          Inr (a, [Send_string (''#   begin stack dump'' @ newline)] @ lines @
                  [Send_string (''#   end stack dump'' @ newline)]))"

definition spec_digit :: "nat \<Rightarrow> rpn_abs \<Rightarrow> spec_result" where
  "spec_digit n a =
     Inr (a\<lparr>a_input := (if length (a_input a) < MAX_INPUT then a_input a @ [of_nat n]
                         else a_input a)\<rparr>,
          [Send_string [char_of (48 + n)]])"

fun spec_key :: "custom_keycodes \<Rightarrow> rpn_abs \<Rightarrow> spec_result" where
  "spec_key RPN_0 a = spec_digit 0 a"
| "spec_key RPN_1 a = spec_digit 1 a"
| "spec_key RPN_2 a = spec_digit 2 a"
| "spec_key RPN_3 a = spec_digit 3 a"
| "spec_key RPN_4 a = spec_digit 4 a"
| "spec_key RPN_5 a = spec_digit 5 a"
| "spec_key RPN_6 a = spec_digit 6 a"
| "spec_key RPN_7 a = spec_digit 7 a"
| "spec_key RPN_8 a = spec_digit 8 a"
| "spec_key RPN_9 a = spec_digit 9 a"
| "spec_key RPN_BSPC a = Inr (a\<lparr>a_input := butlast (a_input a)\<rparr>, [Tap_code KC_BSPC])"
| "spec_key RPN_ENTER a = Inr (spec_commit a)"
| "spec_key RPN_POP a = spec_then spec_pop a"
| "spec_key RPN_PEEK a = spec_then spec_peek a"
| "spec_key RPN_ADD a = spec_then (spec_binop (\<lambda>x b. Inr (x + b)) ''+'' ''# can't +'') a"
| "spec_key RPN_SUB a = spec_then (spec_binop (\<lambda>x b. Inr (x - b)) ''-'' ''# can't -'') a"
| "spec_key RPN_NEG a = spec_then spec_neg a"
| "spec_key RPN_MUL a = spec_then (spec_binop (\<lambda>x b. Inr (x * b)) ''*'' ''# can't *'') a"
| "spec_key RPN_DIV a = spec_then (spec_binop spec_div ''/'' ''# can't /'') a"
| "spec_key RPN_DUP a = spec_then spec_dup a"
| "spec_key RPN_SWAP a = spec_then spec_swap a"
| "spec_key RPN_LIST a = spec_then spec_list a"

text \<open>A run of key-down events of our keycodes.\<close>

fun spec_run :: "custom_keycodes list \<Rightarrow> rpn_abs \<Rightarrow> spec_result" where
  "spec_run [] a = Inr (a, [])"
| "spec_run (k # ks) a =
     (case spec_key k a of
        Inl e \<Rightarrow> Inl e
      | Inr (a1, out1) \<Rightarrow>
          (case spec_run ks a1 of Inl e \<Rightarrow> Inl e | Inr (a2, out2) \<Rightarrow> Inr (a2, out1 @ out2)))"

section \<open>Facts of the abstract machine\<close>

lemma spec_run_append:
  "spec_run (xs @ ys) a =
     (case spec_run xs a of
        Inl e \<Rightarrow> Inl e
      | Inr (a1, out1) \<Rightarrow>
          (case spec_run ys a1 of Inl e \<Rightarrow> Inl e | Inr (a2, out2) \<Rightarrow> Inr (a2, out1 @ out2)))"
  by (induction xs arbitrary: a) (auto split: sum.split prod.split)

lemma spec_key_digit: "d < 10 \<Longrightarrow> spec_key (digit_key d) a = spec_digit d a"
proof -
  assume "d < 10"
  then have "d \<in> {0, 1, 2, 3, 4, 5, 6, 7, 8, 9}" by auto
  then show ?thesis by (auto simp: digit_key_def)
qed

lemma spec_run_digits:
  "length (a_input a) + length ds \<le> MAX_INPUT \<Longrightarrow> \<forall>d \<in> set ds. d < 10 \<Longrightarrow>
   spec_run (map digit_key ds) a =
     Inr (a\<lparr>a_input := a_input a @ map of_nat ds\<rparr>, map (\<lambda>d. Send_string [char_of (48 + d)]) ds)"
  by (induction ds arbitrary: a) (auto simp: spec_key_digit spec_digit_def)

text \<open>
  Clearing the stack: \<open>k\<close> multiplications fold \<open>k + 1\<close> values into one,
  and \<open>0 * POP\<close> removes the last one, which is then \<open>0\<close> and so prints
  without error whatever its sign was.
\<close>

lemma spec_run_muls:
  "a_input a = [] \<Longrightarrow> length (a_stack a) = Suc k \<Longrightarrow>
   \<exists>v out. spec_run (replicate k RPN_MUL) a = Inr (a\<lparr>a_stack := [v]\<rparr>, out)"
proof (induction k arbitrary: a)
  case 0
  then obtain v where "a_stack a = [v]" by (cases "a_stack a") auto
  then show ?case by (intro exI[of _ v]) simp
next
  case (Suc k)
  then obtain b x r where st: "a_stack a = b # x # r"
    by (cases "a_stack a"; cases "tl (a_stack a)") auto
  let ?a1 = "a\<lparr>a_stack := (x * b) # r\<rparr>"
  have k: "spec_key RPN_MUL a = Inr (?a1, [Send_string (''*'' @ newline)])"
    using Suc.prems(1) st by (simp add: spec_then_def spec_commit_def)
  from Suc.prems st have "a_input ?a1 = []" "length (a_stack ?a1) = Suc k" by simp_all
  from Suc.IH[OF this] obtain v out where "spec_run (replicate k RPN_MUL) ?a1 = Inr (?a1\<lparr>a_stack := [v]\<rparr>, out)"
    by blast
  with k show ?case by auto
qed

lemma spec_run_zero_mul_pop:
  "a_input a = [] \<Longrightarrow> a_stack a = [v] \<Longrightarrow>
   \<exists>out. spec_run [RPN_0, RPN_MUL, RPN_POP] a = Inr (a\<lparr>a_stack := []\<rparr>, out)"
  by (simp add: spec_digit_def spec_then_def spec_commit_def push_list_def spec_pop_def
      format_integer_def STACKSIZE_def MAX_INPUT_def dec_val_def)

lemma spec_reset:
  "\<exists>ks a' out. spec_run ks a = Inr (a', out) \<and> a_stack a' = [] \<and> a_input a' = []"
proof -
  obtain a1 out1 where c: "spec_commit a = (a1, out1)" by fastforce
  then have i1: "a_input a1 = []" by (auto simp: spec_commit_def split: if_splits)
  have e: "spec_key RPN_ENTER a = Inr (a1, out1)" using c by simp
  show ?thesis
  proof (cases "a_stack a1")
    case Nil
    with e i1 have "spec_run [RPN_ENTER] a = Inr (a1, out1) \<and> a_stack a1 = [] \<and> a_input a1 = []"
      by simp
    then show ?thesis by blast
  next
    case (Cons v r)
    then have "length (a_stack a1) = Suc (length r)" by simp
    from spec_run_muls[OF i1 this] obtain w out2
      where m: "spec_run (replicate (length r) RPN_MUL) a1 = Inr (a1\<lparr>a_stack := [w]\<rparr>, out2)"
      by blast
    from spec_run_zero_mul_pop[of "a1\<lparr>a_stack := [w]\<rparr>" w] i1 obtain out3
      where z: "spec_run [RPN_0, RPN_MUL, RPN_POP] (a1\<lparr>a_stack := [w]\<rparr>) =
                Inr (a1\<lparr>a_stack := []\<rparr>, out3)" by auto
    have "spec_run (replicate (length r) RPN_MUL @ [RPN_0, RPN_MUL, RPN_POP]) a1 =
        Inr (a1\<lparr>a_stack := []\<rparr>, out2 @ out3)"
      using spec_run_append[of "replicate (length r) RPN_MUL" "[RPN_0, RPN_MUL, RPN_POP]" a1] m z
      by simp
    with e have "spec_run (RPN_ENTER # replicate (length r) RPN_MUL @ [RPN_0, RPN_MUL, RPN_POP]) a =
        Inr (a1\<lparr>a_stack := []\<rparr>, out1 @ out2 @ out3)"
      by simp
    moreover have "a_stack (a1\<lparr>a_stack := []\<rparr>) = [] \<and> a_input (a1\<lparr>a_stack := []\<rparr>) = []"
      using i1 by simp
    ultimately show ?thesis by blast
  qed
qed

end
