(* ===== verification/Refinement.thy ===== *)
theory Refinement
  imports RpnSpec
begin

text \<open>
  The handler of the code refines the abstract machine of \<open>RpnSpec\<close>: on a
  state satisfying \<open>calc_inv\<close>, every case of \<open>rpn_key\<close> produces the same
  output events as \<open>spec_key\<close> on the abstraction, reaches the same error,
  and leaves a state whose abstraction is the abstract result. One lemma per
  case of the switch, each from the refinement lemmas of the stack and input
  buffer operations (collection \<open>abs_simps\<close>). It ends with the lemmas the
  properties of runs share: \<open>run_keys_Inr\<close> transfers a computation of
  \<open>spec_run\<close> to the code, \<open>run_keys_inv\<close> keeps the invariant along a
  run, and \<open>host_text_dec_taps\<close> reads the taps of a printed number as
  the text \<open>dec_string\<close> on the host.
\<close>

section \<open>Abstraction of record updates\<close>

lemma abs_calc_stk [simp]:
  "abs_calc (s\<lparr>stk := st\<rparr>) = (abs_calc s)\<lparr>a_stack := abs_stack st\<rparr>"
  by (simp add: abs_calc_def)

lemma abs_calc_inp [simp]:
  "abs_calc (s\<lparr>inp := ib\<rparr>) = (abs_calc s)\<lparr>a_input := abs_input ib\<rparr>"
  by (simp add: abs_calc_def)

lemma a_stack_abs_calc [simp]: "a_stack (abs_calc s) = abs_stack (stk s)"
  by (simp add: abs_calc_def)

lemma a_input_abs_calc [simp]: "a_input (abs_calc s) = abs_input (inp s)"
  by (simp add: abs_calc_def)

section \<open>The commit step\<close>

lemma input_push_refines:
  assumes "calc_inv s"
  shows "apfst abs_calc (input_push s) = spec_commit (abs_calc s)"
proof -
  from assms have st: "stack_inv (stk s)" and ib: "input_inv (inp s)"
    by (simp_all add: calc_inv_def)
  show ?thesis
    using st ib
    by (auto simp: input_push_def spec_commit_def pop_inbuf_eq abs_simps abs_calc_def
        abs_input_def)
qed

lemma commit_then_refines:
  assumes body: "\<And>s. calc_inv s \<Longrightarrow> map_sum id (apfst abs_calc) (body s) = abody (abs_calc s)"
    and inv: "calc_inv s"
  shows "map_sum id (apfst abs_calc) (commit_then body s) = spec_then abody (abs_calc s)"
proof -
  obtain s1 out1 where p: "input_push s = (s1, out1)" by (cases "input_push s")
  have c: "spec_commit (abs_calc s) = (abs_calc s1, out1)"
    using input_push_refines[OF inv] p by simp
  have "calc_inv s1" using input_push_inv[OF inv] p by simp
  then have b: "map_sum id (apfst abs_calc) (body s1) = abody (abs_calc s1)" by (rule body)
  show ?thesis
  proof (cases "body s1")
    case (Inl e)
    with b have "abody (abs_calc s1) = Inl e" by simp
    with Inl show ?thesis by (simp add: commit_then_def spec_then_def p c)
  next
    case (Inr r)
    with b have "abody (abs_calc s1) = Inr (apfst abs_calc r)" by simp
    with Inr show ?thesis by (cases r) (simp add: commit_then_def spec_then_def p c)
  qed
qed

section \<open>The operator cases\<close>

lemmas refine_simps = abs_simps stack_pop_inv stack_push_inv push_list_def split_def Let_def

lemma stack_shape_cases:
  obtains "xs = []" | x where "xs = [x]" | x y r where "xs = x # y # r"
  by (cases xs rule: remdups_adj.cases) auto

lemma add_body_refines:
  assumes "calc_inv s"
  shows "map_sum id (apfst abs_calc) (add_body s) =
         spec_binop (\<lambda>x b. Inr (x + b)) ''+'' ''# can't +'' (abs_calc s)"
proof -
  from assms have st: "stack_inv (stk s)" by (simp add: calc_inv_def)
  then have len: "length (abs_stack (stk s)) \<le> STACKSIZE" by (rule abs_stack_length_le)
  show ?thesis
    by (cases "abs_stack (stk s)" rule: stack_shape_cases)
       (use st len in \<open>auto simp: add_body_def refine_simps add.commute\<close>)
qed

lemma sub_body_refines:
  assumes "calc_inv s"
  shows "map_sum id (apfst abs_calc) (sub_body s) =
         spec_binop (\<lambda>x b. Inr (x - b)) ''-'' ''# can't -'' (abs_calc s)"
proof -
  from assms have st: "stack_inv (stk s)" by (simp add: calc_inv_def)
  then have len: "length (abs_stack (stk s)) \<le> STACKSIZE" by (rule abs_stack_length_le)
  show ?thesis
    by (cases "abs_stack (stk s)" rule: stack_shape_cases)
       (use st len in \<open>auto simp: sub_body_def refine_simps\<close>)
qed

lemma mul_body_refines:
  assumes "calc_inv s"
  shows "map_sum id (apfst abs_calc) (mul_body s) =
         spec_binop (\<lambda>x b. Inr (x * b)) ''*'' ''# can't *'' (abs_calc s)"
proof -
  from assms have st: "stack_inv (stk s)" by (simp add: calc_inv_def)
  then have len: "length (abs_stack (stk s)) \<le> STACKSIZE" by (rule abs_stack_length_le)
  show ?thesis
    by (cases "abs_stack (stk s)" rule: stack_shape_cases)
       (use st len in \<open>auto simp: mul_body_def refine_simps mult.commute\<close>)
qed

lemma div_body_refines:
  assumes "calc_inv s"
  shows "map_sum id (apfst abs_calc) (div_body s) =
         spec_binop spec_div ''/'' ''# can't /'' (abs_calc s)"
proof -
  from assms have st: "stack_inv (stk s)" by (simp add: calc_inv_def)
  then have len: "length (abs_stack (stk s)) \<le> STACKSIZE" by (rule abs_stack_length_le)
  show ?thesis
    by (cases "abs_stack (stk s)" rule: stack_shape_cases)
       (use st len in \<open>auto simp: div_body_def spec_div_def refine_simps\<close>)
qed

lemma neg_body_refines:
  assumes "calc_inv s"
  shows "map_sum id (apfst abs_calc) (neg_body s) = spec_neg (abs_calc s)"
proof -
  from assms have st: "stack_inv (stk s)" by (simp add: calc_inv_def)
  then have len: "length (abs_stack (stk s)) \<le> STACKSIZE" by (rule abs_stack_length_le)
  show ?thesis
    by (cases "abs_stack (stk s)") (use st len in \<open>auto simp: neg_body_def spec_neg_def refine_simps\<close>)
qed

lemma dup_body_refines:
  assumes "calc_inv s"
  shows "map_sum id (apfst abs_calc) (dup_body s) = spec_dup (abs_calc s)"
proof -
  from assms have st: "stack_inv (stk s)" by (simp add: calc_inv_def)
  then have len: "length (abs_stack (stk s)) \<le> STACKSIZE" by (rule abs_stack_length_le)
  show ?thesis
    by (cases "abs_stack (stk s)") (use st len in \<open>auto simp: dup_body_def spec_dup_def refine_simps\<close>)
qed

lemma swap_body_refines:
  assumes "calc_inv s"
  shows "map_sum id (apfst abs_calc) (swap_body s) = spec_swap (abs_calc s)"
proof -
  from assms have st: "stack_inv (stk s)" by (simp add: calc_inv_def)
  then have len: "length (abs_stack (stk s)) \<le> STACKSIZE" by (rule abs_stack_length_le)
  show ?thesis
    by (cases "abs_stack (stk s)" rule: stack_shape_cases)
       (use st len in \<open>auto simp: swap_body_def spec_swap_def refine_simps\<close>)
qed

lemma pop_body_refines:
  assumes "calc_inv s"
  shows "map_sum id (apfst abs_calc) (pop_body s) = spec_pop (abs_calc s)"
proof -
  from assms have st: "stack_inv (stk s)" by (simp add: calc_inv_def)
  show ?thesis
    by (cases "abs_stack (stk s)")
       (use st in \<open>auto simp: pop_body_def spec_pop_def refine_simps send_int_format
          split: sum.split\<close>)
qed

lemma peek_body_refines:
  assumes "calc_inv s"
  shows "map_sum id (apfst abs_calc) (peek_body s) = spec_peek (abs_calc s)"
proof -
  from assms have st: "stack_inv (stk s)" by (simp add: calc_inv_def)
  show ?thesis
    by (cases "abs_stack (stk s)")
       (use st in \<open>auto simp: peek_body_def spec_peek_def refine_simps send_int_format
          split: sum.split\<close>)
qed

lemma dump_loop_spec:
  "n \<le> length cells \<Longrightarrow> dump_loop n cells = spec_dump (rev (take n cells))"
proof (induction n)
  case 0
  then show ?case by simp
next
  case (Suc n)
  then have "rev (take (Suc n) cells) = cells ! n # rev (take n cells)"
    by (simp add: take_Suc_conv_app_nth)
  with Suc show ?case
    by (simp add: send_int_format split: sum.split)
qed

lemma list_body_refines:
  assumes "calc_inv s"
  shows "map_sum id (apfst abs_calc) (list_body s) = spec_list (abs_calc s)"
proof -
  from assms have "unat (stackpos (stk s)) \<le> length (stack (stk s))"
    by (simp add: calc_inv_def stack_inv_def)
  then show ?thesis
    by (auto simp: list_body_by_loop spec_list_def dump_loop_spec abs_stack_def split: sum.split)
qed

section \<open>Digits, backspace and enter\<close>

lemma do_number_refines:
  assumes "calc_inv s"
  shows "map_sum id (apfst abs_calc) (do_number n s) = spec_digit n (abs_calc s)"
  using assms by (simp add: do_number_def spec_digit_def calc_inv_def record_input_abs)

lemma rpn_bspc_refines:
  assumes "calc_inv s"
  shows "map_sum id (apfst abs_calc) (rpn_bspc s) = spec_key RPN_BSPC (abs_calc s)"
  using assms by (simp add: rpn_bspc_def calc_inv_def backspace_input_abs)

section \<open>Every key\<close>

lemma rpn_key_refines:
  assumes "calc_inv s"
  shows "map_sum id (apfst abs_calc) (rpn_key k s) = spec_key k (abs_calc s)"
  using assms
  by (cases k)
     (simp_all add: do_number_refines rpn_bspc_refines input_push_refines
        commit_then_refines pop_body_refines peek_body_refines add_body_refines
        sub_body_refines neg_body_refines mul_body_refines div_body_refines
        dup_body_refines swap_body_refines list_body_refines)

lemma process_record_user_custom:
  "process_record_user (Custom k) True s = rpn_key k s"
  by (simp add: process_record_user_def split: rpn_state.split)

section \<open>Runs\<close>

lemma run_keys_refines:
  "calc_inv s \<Longrightarrow>
   map_sum id (apfst abs_calc) (run_keys (map Custom ks) s) = spec_run ks (abs_calc s)"
proof (induction ks arbitrary: s)
  case Nil
  then show ?case by simp
next
  case (Cons k ks)
  have key: "map_sum id (apfst abs_calc) (rpn_key k s) = spec_key k (abs_calc s)"
    using Cons.prems by (rule rpn_key_refines)
  show ?case
  proof (cases "rpn_key k s")
    case (Inl e)
    with key have "spec_key k (abs_calc s) = Inl e" by simp
    with Inl show ?thesis by (simp add: process_record_user_custom)
  next
    case (Inr r)
    obtain s1 out1 where r: "r = (s1, out1)" by (cases r)
    with Inr Cons.prems have "calc_inv s1" by (blast intro: rpn_key_inv)
    then have IH: "map_sum id (apfst abs_calc) (run_keys (map Custom ks) s1) =
        spec_run ks (abs_calc s1)" by (rule Cons.IH)
    from key Inr r have "spec_key k (abs_calc s) = Inr (abs_calc s1, out1)" by simp
    with Inr r IH show ?thesis
      by (auto simp: process_record_user_custom split: sum.split)
  qed
qed

lemma run_keys_Inr:
  "calc_inv s \<Longrightarrow> spec_run ks (abs_calc s) = Inr (a, out) \<Longrightarrow>
   \<exists>s'. run_keys (map Custom ks) s = Inr (s', out) \<and> abs_calc s' = a"
  using run_keys_refines[of s ks] by (simp add: map_sum_apfst_Inr)

lemma run_keys_inv:
  "calc_inv s \<Longrightarrow> run_keys ks s = Inr (s', out) \<Longrightarrow> calc_inv s'"
proof (induction ks arbitrary: s out)
  case Nil
  then show ?case by simp
next
  case (Cons k ks)
  then show ?case
    by (auto split: sum.splits prod.splits intro: process_record_user_inv)
qed

lemma key_Inl:
  "calc_inv s \<Longrightarrow> process_record_user (Custom k) True s = Inl e \<Longrightarrow> spec_key k (abs_calc s) = Inl e"
  using rpn_key_refines[of s k] by (simp add: process_record_user_custom)

section \<open>Keys on a state with no pending input\<close>

lemma input_push_idle:
  "calc_inv s \<Longrightarrow> abs_input (inp s) = [] \<Longrightarrow> input_push s = (s, [])"
  by (simp add: input_push_def calc_inv_def inbufpos_pos_iff)

lemma commit_then_idle:
  "calc_inv s \<Longrightarrow> abs_input (inp s) = [] \<Longrightarrow> commit_then body s = body s"
  by (simp add: commit_then_def input_push_idle split: sum.split prod.split)

section \<open>Which errors the handler can reach\<close>

lemma format_integer_Inl: "format_integer v = Inl e \<Longrightarrow> e = Keymap_out_of_bounds"
  by (simp add: format_integer_def split: if_splits)

lemma spec_dump_Inl: "spec_dump vs = Inl e \<Longrightarrow> e = Keymap_out_of_bounds"
  by (induction vs) (auto simp: format_integer_Inl split: sum.splits)

lemma spec_then_Inl: "spec_then op a = Inl e \<Longrightarrow> \<exists>a'. op a' = Inl e"
  by (auto simp: spec_then_def split: prod.splits sum.splits)

lemma spec_key_Inl:
  "spec_key k a = Inl e \<Longrightarrow>
   (e = Division_by_zero \<and> k = RPN_DIV) \<or>
   (e = Keymap_out_of_bounds \<and> k \<in> {RPN_POP, RPN_PEEK, RPN_LIST})"
  by (cases k)
     (auto simp: spec_digit_def spec_neg_def spec_dup_def spec_swap_def spec_pop_def
        spec_peek_def spec_list_def spec_div_def format_integer_Inl spec_dump_Inl
        split: list.splits sum.splits if_splits dest!: spec_then_Inl)

section \<open>Printing and typing back\<close>

lemma dec_val_dec_digits: "dec_val (map of_nat (dec_digits n)) = n"
proof (induction n rule: dec_digits.induct)
  case (1 n)
  show ?case
  proof (cases "n < 10")
    case True
    then show ?thesis by (simp add: dec_val_def unat_of_nat)
  next
    case False
    with "1.IH" have "dec_val (map of_nat (dec_digits (n div 10))) = n div 10" by simp
    with False show ?thesis by (simp add: dec_digits_big unat_of_nat)
  qed
qed

lemma dec_digits_length_bound: "n < 10 ^ k \<Longrightarrow> 0 < k \<Longrightarrow> length (dec_digits n) \<le> k"
proof (induction k arbitrary: n)
  case 0
  then show ?case by simp
next
  case (Suc k)
  show ?case
  proof (cases "n < 10")
    case True
    then show ?thesis by simp
  next
    case False
    then have "0 < k" using Suc.prems by (cases k) auto
    moreover have "n div 10 < 10 ^ k" using Suc.prems by (simp add: div_less_iff_less_mult)
    ultimately have "length (dec_digits (n div 10)) \<le> k" by (rule Suc.IH[rotated])
    with False show ?thesis by (simp add: dec_digits_big)
  qed
qed

lemma spec_dump_nonneg:
  "\<forall>v \<in> set vs. 0 \<le> sint v \<Longrightarrow>
   spec_dump vs =
     Inr (concat (map (\<lambda>v. [Send_string ''# ''] @ digit_taps (dec_digits (nat (sint v))) @
                              [Send_string newline]) vs))"
  by (induction vs) (simp_all add: format_integer_def)

section \<open>Typing a number\<close>

lemma run_digits_enter:
  assumes "calc_inv s" and "abs_input (inp s) = []"
    and "length (abs_stack (stk s)) < STACKSIZE"
    and "ds \<noteq> []" and "length ds \<le> MAX_INPUT" and "\<forall>d \<in> set ds. d < 10"
  shows "\<exists>s' out. run_keys (map Custom (map digit_key ds @ [RPN_ENTER])) s = Inr (s', out) \<and>
           abs_stack (stk s') = of_nat (dec_val (map of_nat ds)) # abs_stack (stk s) \<and>
           abs_input (inp s') = []"
proof -
  let ?a = "abs_calc s"
  have digits: "spec_run (map digit_key ds) ?a =
      Inr (?a\<lparr>a_input := map of_nat ds\<rparr>, map (\<lambda>d. Send_string [char_of (48 + d)]) ds)"
    using assms(2,5,6) spec_run_digits[of ?a ds] by simp
  have enter: "spec_run [RPN_ENTER] (?a\<lparr>a_input := map of_nat ds\<rparr>) =
      Inr (\<lparr>a_stack = of_nat (dec_val (map of_nat ds)) # abs_stack (stk s), a_input = []\<rparr>,
           [Send_string (''<'' @ newline)])"
    using assms(3,4) by (simp add: spec_commit_def push_list_def)
  from run_keys_refines[OF assms(1), of "map digit_key ds @ [RPN_ENTER]"] digits enter
  have "map_sum id (apfst abs_calc) (run_keys (map Custom (map digit_key ds @ [RPN_ENTER])) s) =
      Inr (\<lparr>a_stack = of_nat (dec_val (map of_nat ds)) # abs_stack (stk s), a_input = []\<rparr>,
           map (\<lambda>d. Send_string [char_of (48 + d)]) ds @ [Send_string (''<'' @ newline)])"
    by (simp add: spec_run_append)
  then show ?thesis
    by (auto simp: map_sum_apfst_Inr abs_calc_def)
qed

lemma spec_type_number:
  assumes "a_input a = []" and "length (a_stack a) < STACKSIZE" and "n < 10 ^ 9"
  shows "spec_run (map digit_key (dec_digits n) @ [RPN_ENTER]) a =
      Inr (a\<lparr>a_stack := of_nat n # a_stack a\<rparr>,
           map (\<lambda>d. Send_string [char_of (48 + d)]) (dec_digits n) @ [Send_string (''<'' @ newline)])"
proof -
  let ?ds = "dec_digits n"
  have len: "length ?ds \<le> 9" using dec_digits_length_bound[of n 9] assms(3) by simp
  have lt: "\<forall>d \<in> set ?ds. d < 10" using dec_digits_less_10 by blast
  have ne: "?ds \<noteq> []" by (subst dec_digits.simps) simp
  have d: "spec_run (map digit_key ?ds) a =
      Inr (a\<lparr>a_input := map of_nat ?ds\<rparr>, map (\<lambda>d. Send_string [char_of (48 + d)]) ?ds)"
    using spec_run_digits[of a ?ds] len lt assms(1) by (simp add: MAX_INPUT_def)
  have e: "spec_run [RPN_ENTER] (a\<lparr>a_input := map of_nat ?ds\<rparr>) =
      Inr (a\<lparr>a_stack := of_nat n # a_stack a\<rparr>, [Send_string (''<'' @ newline)])"
    using assms(1,2) ne by (simp add: spec_commit_def push_list_def dec_val_dec_digits)
  show ?thesis by (simp add: spec_run_append d e del: spec_run.simps(2))
qed

section \<open>What the host shows\<close>

text \<open>
  The text a number is printed as: its decimal digits as characters, the
  same characters the digit keys echo and \<open>send_int\<close> taps.
\<close>

definition dec_string :: "nat \<Rightarrow> string" where
  "dec_string n = map (\<lambda>d. char_of (48 + d)) (dec_digits n)"

lemma host_text_echoes:
  "host_text t (map (\<lambda>d. Send_string [char_of (48 + d)]) ds) = t @ map (\<lambda>d. char_of (48 + d)) ds"
  by (induction ds arbitrary: t) simp_all

lemma host_apply_digit_tap:
  "d < 10 \<Longrightarrow> host_apply t (Tap_code (keyvalmap ! d)) = t @ [char_of (48 + d)]"
proof -
  assume "d < 10"
  then have "d \<in> set [0..<10]" by simp
  then show ?thesis by (auto simp: upt_rec keyvalmap_def char_of_def bit_simps)
qed

lemma host_text_digit_taps:
  "\<forall>d \<in> set ds. d < 10 \<Longrightarrow> host_text t (digit_taps ds) = t @ map (\<lambda>d. char_of (48 + d)) ds"
  by (induction ds arbitrary: t) (simp_all add: digit_taps_def host_apply_digit_tap)

lemma host_text_dec_taps: "host_text t (digit_taps (dec_digits n)) = t @ dec_string n"
  using host_text_digit_taps[of "dec_digits n" t] dec_digits_less_10[of _ n]
  by (simp add: dec_string_def)

end
