(* ===== verification/Layout.thy ===== *)
theory Layout
  imports Calculator
begin

text \<open>
  The key layout \<open>keymaps[][MATRIX_ROWS][MATRIX_COLS]\<close> of the macro pad:
  two layers of three rows of four keys. Layer 0 holds the digits, ENTER
  and the one-shot layer key \<open>OSL(1)\<close>; layer 1 holds the operators, with
  \<open>KC_TRNS\<close> (fall through to the layer below) under the \<open>OSL(1)\<close> key.
  The table is data of the host: QMK looks up the keycode of a pressed
  matrix position in it and hands it to \<open>process_record_user\<close>.

  The keycodes themselves are numbers: \<open>enum custom_keycodes\<close> starts at
  QMK's \<open>SAFE_RANGE\<close> and counts up, the table stores them as
  \<open>uint16_t\<close>, and \<open>process_record_user\<close> receives a \<open>uint16_t kc\<close> that
  its \<open>switch\<close> compares with the enum values. \<open>SAFE_RANGE\<close> is defined
  by QMK, outside this repository, so it is the parameter \<open>sr\<close> here.
  \<open>process_record_user_c\<close> is the handler with its C signature: the key
  record of QMK in, the result \<open>true\<close> out.
  The theory shows that every event the calculator does not handle, a
  release or a keycode that is none of the stored values, is inert.
\<close>

section \<open>Keycode values\<close>

text \<open>The enumerators in declaration order; the value of each is \<open>SAFE_RANGE\<close> plus its position.\<close>

definition custom_keycode_list :: "custom_keycodes list" where
  "custom_keycode_list =
     [RPN_0, RPN_1, RPN_2, RPN_3, RPN_4, RPN_5, RPN_6, RPN_7, RPN_8, RPN_9,
      RPN_ENTER, RPN_BSPC, RPN_ADD, RPN_SUB, RPN_NEG, RPN_DIV, RPN_MUL, RPN_DUP,
      RPN_POP, RPN_PEEK, RPN_SWAP, RPN_LIST]"

fun keycode_ord :: "custom_keycodes \<Rightarrow> nat" where
  "keycode_ord RPN_0 = 0" | "keycode_ord RPN_1 = 1" | "keycode_ord RPN_2 = 2"
| "keycode_ord RPN_3 = 3" | "keycode_ord RPN_4 = 4" | "keycode_ord RPN_5 = 5"
| "keycode_ord RPN_6 = 6" | "keycode_ord RPN_7 = 7" | "keycode_ord RPN_8 = 8"
| "keycode_ord RPN_9 = 9" | "keycode_ord RPN_ENTER = 10" | "keycode_ord RPN_BSPC = 11"
| "keycode_ord RPN_ADD = 12" | "keycode_ord RPN_SUB = 13" | "keycode_ord RPN_NEG = 14"
| "keycode_ord RPN_DIV = 15" | "keycode_ord RPN_MUL = 16" | "keycode_ord RPN_DUP = 17"
| "keycode_ord RPN_POP = 18" | "keycode_ord RPN_PEEK = 19" | "keycode_ord RPN_SWAP = 20"
| "keycode_ord RPN_LIST = 21"

text \<open>The \<open>int\<close> value of an enumerator, and the \<open>uint16_t\<close> the table stores.\<close>

definition keycode_value :: "nat \<Rightarrow> custom_keycodes \<Rightarrow> nat" where
  "keycode_value sr k = sr + keycode_ord k"

definition stored_keycode :: "nat \<Rightarrow> custom_keycodes \<Rightarrow> u16" where
  "stored_keycode sr k = of_nat (keycode_value sr k)"

text \<open>
  The \<open>switch (kc)\<close>: \<open>kc\<close>, promoted to \<open>int\<close>, matches the case of
  the enumerator with that value; any other value reaches no case.
\<close>

definition decode_keycode :: "nat \<Rightarrow> u16 \<Rightarrow> keycode" where
  "decode_keycode sr kc =
     (if sr \<le> unat kc \<and> unat kc < sr + length custom_keycode_list
      then Custom (custom_keycode_list ! (unat kc - sr)) else Host_key kc)"

definition process_key :: "nat \<Rightarrow> u16 \<Rightarrow> bool \<Rightarrow> calc \<Rightarrow> step_result" where
  "process_key sr kc pressed s = process_record_user (decode_keycode sr kc) pressed s"

text \<open>
  The C signature \<open>bool process_record_user(uint16_t kc, keyrecord_t *record)\<close>:
  the handler reads only \<open>record->event.pressed\<close>, and returns \<open>true\<close>
  (let QMK process the key further) after every event it survives.
\<close>

record keyevent =
  ev_pressed :: bool

record keyrecord =
  event :: keyevent

definition process_record_user_c ::
  "nat \<Rightarrow> u16 \<Rightarrow> keyrecord \<Rightarrow> calc \<Rightarrow> rpn_error + bool \<times> calc \<times> out_event list" where
  "process_record_user_c sr kc record s =
     (case process_key sr kc (ev_pressed (event record)) s of
        Inl e \<Rightarrow> Inl e
      | Inr (s', out) \<Rightarrow> Inr (True, s', out))"

section \<open>The layout table\<close>

datatype layout_code = Layout_RPN custom_keycodes | OSL nat | KC_TRNS

definition keymaps :: "layout_code list list list" where
  "keymaps =
     [[[OSL 1, Layout_RPN RPN_7, Layout_RPN RPN_4, Layout_RPN RPN_1],
       [Layout_RPN RPN_0, Layout_RPN RPN_8, Layout_RPN RPN_5, Layout_RPN RPN_2],
       [Layout_RPN RPN_ENTER, Layout_RPN RPN_9, Layout_RPN RPN_6, Layout_RPN RPN_3]],
      [[KC_TRNS, Layout_RPN RPN_DUP, Layout_RPN RPN_MUL, Layout_RPN RPN_ADD],
       [Layout_RPN RPN_LIST, Layout_RPN RPN_PEEK, Layout_RPN RPN_DIV, Layout_RPN RPN_SUB],
       [Layout_RPN RPN_SWAP, Layout_RPN RPN_POP, Layout_RPN RPN_BSPC, Layout_RPN RPN_NEG]]]"

text \<open>The keycode at a layer, row and column; outside the table there is none.\<close>

definition keycode_at :: "nat \<Rightarrow> nat \<Rightarrow> nat \<Rightarrow> layout_code option" where
  "keycode_at l r c =
     (if l < length keymaps \<and> r < length (keymaps ! l) \<and> c < length (keymaps ! l ! r)
      then Some (keymaps ! l ! r ! c) else None)"

section \<open>Keycode values decode back\<close>

lemma length_custom_keycode_list [simp]: "length custom_keycode_list = 22"
  by (simp add: custom_keycode_list_def)

lemma keycode_ord_less: "keycode_ord k < 22"
  by (cases k) simp_all

lemma custom_keycode_list_ord [simp]: "custom_keycode_list ! keycode_ord k = k"
  by (cases k) (simp_all add: custom_keycode_list_def)

lemma map_keycode_ord: "map keycode_ord custom_keycode_list = [0..<22]"
  by (simp add: custom_keycode_list_def upt_rec)

lemma keycode_ord_list: "j < 22 \<Longrightarrow> keycode_ord (custom_keycode_list ! j) = j"
  using arg_cong[OF map_keycode_ord, of "\<lambda>xs. xs ! j"] by simp

lemma unat_stored_keycode:
  "sr + 22 \<le> 2 ^ 16 \<Longrightarrow> unat (stored_keycode sr k) = sr + keycode_ord k"
proof -
  assume "sr + 22 \<le> 2 ^ 16"
  with keycode_ord_less[of k] have "sr + keycode_ord k < 2 ^ 16" by linarith
  then show ?thesis by (simp only: stored_keycode_def keycode_value_def unat_of_nat) simp
qed

lemma decode_keycode_Custom:
  assumes "sr + 22 \<le> 2 ^ 16" and d: "decode_keycode sr kc = Custom k"
  shows "kc = stored_keycode sr k"
proof -
  from d have r: "sr \<le> unat kc" "unat kc < sr + 22"
    and k: "k = custom_keycode_list ! (unat kc - sr)"
    by (simp_all add: decode_keycode_def split: if_splits)
  from r k have "keycode_ord k = unat kc - sr" by (simp add: keycode_ord_list)
  with r assms(1) have "unat (stored_keycode sr k) = unat kc"
    by (simp add: unat_stored_keycode)
  then show ?thesis by (simp add: word_unat_eq_iff)
qed

lemma decode_keycode_cases: "(\<exists>k. decode_keycode sr kc = Custom k) \<or> decode_keycode sr kc = Host_key kc"
  by (simp add: decode_keycode_def)

section \<open>Properties\<close>

text \<open>
  C31. Every event the calculator does not handle is inert: for a key
  release, or a key whose \<open>uint16_t\<close> code is not the stored value of a
  custom keycode, \<open>process_record_user\<close> leaves the state unchanged, sends
  nothing to the host and returns \<open>true\<close>, so QMK handles the key itself.
\<close>

theorem unhandled_events_inert:
  assumes "sr + 22 \<le> 2 ^ 16" and "(\<forall>k. kc \<noteq> stored_keycode sr k) \<or> \<not> ev_pressed (event r)"
  shows "process_record_user_c sr kc r s = Inr (True, s, [])"
proof -
  have "process_key sr kc (ev_pressed (event r)) s = Inr (s, [])"
  proof (cases "ev_pressed (event r)")
    case True
    with assms(2) have n: "\<forall>k. kc \<noteq> stored_keycode sr k" by simp
    have "decode_keycode sr kc = Host_key kc"
      using decode_keycode_cases[of sr kc] decode_keycode_Custom[OF assms(1)] n by blast
    with True show ?thesis
      by (simp add: process_key_def process_record_user_def split: rpn_state.split)
  next
    case False
    then show ?thesis by (simp add: process_key_def process_record_user_def)
  qed
  then show ?thesis by (simp add: process_record_user_c_def)
qed

theorem unhandled_events_inert_witness:
  "process_record_user_c 32320 4 \<lparr>event = \<lparr>ev_pressed = True\<rparr>\<rparr> init_calc =
   Inr (True, init_calc, [])"
proof -
  have h1: "(32320::nat) + 22 \<le> 2 ^ 16" by simp
  have "\<forall>k. (4::u16) \<noteq> stored_keycode 32320 k"
  proof
    fix k
    have "unat (stored_keycode 32320 k) = 32320 + keycode_ord k"
      using unat_stored_keycode[OF h1] .
    then show "(4::u16) \<noteq> stored_keycode 32320 k" by auto
  qed
  then show ?thesis
    using unhandled_events_inert[OF h1, of 4 "\<lparr>event = \<lparr>ev_pressed = True\<rparr>\<rparr>" init_calc] by simp
qed

end
