(* ===== verification/Spec2Isabelle.thy ===== *)
theory Spec2Isabelle
  imports Refinement Layout
begin

text \<open>
  \<^bold>\<open>An RPN calculator on a QMK keyboard, verified.\<close>

  The program is the keymap \<^verbatim>\<open>src/mcro/rpncalc/keymaps/default/keymap.c\<close>
  of a macro pad that works as a reverse-Polish calculator: digit keys
  collect a number, operator keys work on a stack of 32-bit integers, and
  every result is typed back to the host as keystrokes. Its parts, and the
  theory that models each:

  \<^item> \<^bold>\<open>Input buffer\<close> (\<open>InputBuffer\<close>): the globals \<open>inbuf\<close>/\<open>inbufpos\<close>
    as the record \<open>input_buffer\<close>; \<open>record_input\<close>, \<open>backspace_input\<close>,
    and \<open>pop_inbuf\<close> with its digit loop \<open>pop_inbuf_for\<close> over the C
    \<open>int\<close> index (equal to the structural \<open>pop_inbuf_loop\<close>), all in
    \<open>uint8_t\<close>/\<open>int32_t\<close> arithmetic as words. The invariant \<open>input_inv\<close>
    (fixed array length, \<open>inbufpos \<le> 15\<close>, live cells are digits) is kept
    by every operation, and \<open>abs_input\<close> reads the live digits as a list.
  \<^item> \<^bold>\<open>Stack\<close> (\<open>Stack\<close>): \<open>stack\<close>/\<open>stackpos\<close> as the record
    \<open>rpn_stack\<close>; \<open>stack_push\<close>, \<open>stack_pop\<close>, \<open>stack_peek\<close> (an empty
    peek is the out-of-bounds read \<open>Stack_out_of_bounds\<close>). \<open>abs_stack\<close>
    lists the live cells top first; the array operations refine the list
    operations \<open>push_list\<close> and \<open>pop_list\<close> under \<open>stack_inv\<close>.
  \<^item> \<^bold>\<open>Formatter\<close> (\<open>Formatter\<close>): \<open>keyvalmap\<close> and \<open>send_int\<close>, split
    into its two loops \<open>fill_outbuf\<close> and \<open>send_loop\<close> (the latter over the
    C \<open>int\<close> index, proved equal to the list recursion \<open>send_digits\<close>
    and total by the measure \<open>nat (i + 1)\<close>); C's truncating
    \<open>/\<close> and \<open>%\<close> are \<open>c_div\<close> and \<open>c_mod\<close> of \<open>Prelude\<close>. It is proved
    equal to \<open>format_integer\<close>: the decimal digits of a non-negative value,
    and an out-of-bounds read of \<open>keyvalmap\<close> for every negative one.
  \<^item> \<^bold>\<open>Handler\<close> (\<open>Calculator\<close>): the custom keycodes, the one-state mode
    \<open>rpn_state\<close>, the state record \<open>calc\<close> of all globals,
    \<open>input_push\<close>, and \<open>process_record_user\<close> with one definition per case
    of its \<open>switch\<close> (\<open>do_number\<close>, \<open>rpn_bspc\<close>, \<open>pop_body\<close> ..
    \<open>list_body\<close>), each operator case being \<open>commit_then\<close> of its body as
    the code calls \<open>input_push()\<close> first. A call returns the new state and
    the list of host output events (\<open>Host\<close>: \<open>Tap_code\<close> for
    \<open>tap_code\<close>, \<open>Send_string\<close> for \<open>send_string\<close>/\<open>SEND_STRING\<close>), or
    the undefined behaviour it reaches (\<open>rpn_error\<close>: division by zero, an
    out-of-bounds table or stack read). \<open>run_keys\<close> is the host's event loop
    over key-down events and \<open>reachable\<close> the states reachable from
    \<open>init_calc\<close>.
  \<^item> \<^bold>\<open>Layout\<close> (\<open>Layout\<close>): the numeric values of the custom
    keycodes (\<open>SAFE_RANGE\<close> plus their position, \<open>SAFE_RANGE\<close> being a
    parameter since QMK defines it), the \<open>switch\<close> on the \<open>uint16_t kc\<close> as
    \<open>decode_keycode\<close>, the C interface of the handler (\<open>keyrecord_t\<close>,
    of which only \<open>record->event.pressed\<close> is read, and the result
    \<open>true\<close>) as \<open>process_record_user_c\<close>, and the table \<open>keymaps\<close> of the two layers of
    keycodes, read by the host.
  \<^item> \<^bold>\<open>Host\<close> (\<open>Host\<close>): the output events, and, modelled from the
    spec, the text they leave on the host (\<open>host_text\<close>).
  \<^item> \<^bold>\<open>Specification\<close> (\<open>RpnSpec\<close>): the calculator of the spec on lists,
    \<open>spec_key\<close> per key and \<open>spec_run\<close> per run, over the abstraction
    \<open>abs_calc\<close> of a state; \<^bold>\<open>Refinement\<close> (\<open>Refinement\<close>) proves the
    handler equal to it, key by key, on every state satisfying \<open>calc_inv\<close>.

  This theory states the properties that span components, each proved by
  computing the key sequence in \<open>spec_run\<close> and transferring the result
  with \<open>run_keys_Inr\<close> of \<open>Refinement\<close>:
  \<^item> the refinement of the whole handler (C1), the bounds invariant of
    every reachable state by rule induction on \<open>reachable\<close> (C2), and
    which undefined behaviour a key can reach (C5, C6);
  \<^item> typing numbers: digits then ENTER push the typed value, exactly below
    \<open>10\<^sup>9\<close> (C3); typing the digits of a number, ENTER and POP prints
    the same digits (C14); a digit on a full buffer is echoed but dropped
    (C13); BSPC on an empty buffer still erases a host character (C27);
    ENTER on a full stack loses the value, \<open>stackpos\<close> staying at
    \<open>STACKSIZE\<close> (C26);
  \<^item> stack manipulation: DUP;POP restores the stack (C7) except on a
    full stack (C8), SWAP exchanges the two top values and a second SWAP
    puts them back (C9), ADD and MUL commute
    (C10), NEG wraps only at \<open>-2\<^sup>3\<^sup>1\<close> (C25), LIST dumps the stack
    (C15), and the refusals on too few values (C11, C12);
  \<^item> recovery: from every reachable state some key sequence empties the
    calculator without undefined behaviour (C28);
  \<^item> arithmetic and order: DIV is C's truncating division, wrapping only
    at \<open>INT_MIN / -1\<close> (C32), and pending digits are the right operand of
    the operator that commits them (C33);
  \<^item> the abstraction is sound: stale array cells above the counters never
    influence behaviour (C34);
  \<^item> the host's view: the spec's example session, \<open>a ENTER b + POP\<close>
    for any two numbers below \<open>10\<^sup>9\<close>, leaves the lines \<open>a<\<close>,
    \<open>b<\<close>, \<open>+\<close>, \<open>> a+b\<close> on the host (C29), and the echo of the digit
    keys stays in step with the input buffer while it is neither full nor
    backspaced past empty (C30).
  The component theories state the claims about a single component: the
  formatter (C4), the input buffer (C16 to C21, among them the
  wrap-around of values of \<open>2\<^sup>3\<^sup>1\<close> and more, C18), the stack (C22
  to C24) and the keycodes (C31: releases and foreign keycodes are inert,
  the handler returning \<open>true\<close> so that QMK handles them).
  \<open>sample_state\<close>, \<open>full_input_state\<close>, \<open>full_state\<close>, \<open>min_state\<close>
  and \<open>stack_state\<close> below are
  concrete states at which the witnesses instantiate them.

  What the modelling shows about the code: printing a negative value
  indexes \<open>keyvalmap\<close> out of bounds (no minus sign is ever typed);
  a division by zero is not caught; SWAP's refusal reads \<open># can't dup\<close>;
  values of ten or more digits wrap in \<open>int32_t\<close>; on a full stack
  DUP and ENTER silently lose a value; and \<open>INT_MIN / -1\<close> overflows,
  which the spec does not address.

  Not modelled, as the spec (section 1) puts it out of scope of the core:
  the QMK host (matrix scanning, the layer switching of the
  one-shot key \<open>OSL(1)\<close> and of \<open>KC_TRNS\<close>, USB HID), whose primitives
  are the output events and, from the spec, their effect on the host's
  text; the \<open>pico_eeprom.h\<close> include, which the keymap does not use; and
  the scratch globals \<open>dirty_hack\<close> and \<open>outbuf\<close>, which every use
  overwrites before reading. Signed overflow of \<open>+\<close>, \<open>-\<close>, \<open>*\<close> and
  unary \<open>-\<close> is modelled as 32-bit wrap-around, as the spec states. No
  loop needs fuel: every loop of the code is bounded by a counter, and is a
  structural recursion here or, for the loops over a C \<open>int\<close> index
  (\<open>send_loop\<close>, \<open>pop_inbuf_for\<close>, \<open>dump_for\<close>), a \<open>function\<close> with
  the measure \<open>nat (i + 1)\<close>, proved equal to a structural recursion.
\<close>

section \<open>Sample states\<close>

text \<open>
  Concrete states at which the witnesses instantiate the theorems: the
  state with \<open>n\<close> zeros on the stack and no pending digit, the initial
  state with a full input buffer, and a full stack with a full buffer.
\<close>

definition sample_state :: "nat \<Rightarrow> calc" where
  "sample_state n =
     \<lparr>stk = \<lparr>stack = replicate STACKSIZE 0, stackpos = of_nat n\<rparr>, inp = init_input,
      state = S_NUMBER\<rparr>"

text \<open>The initial state with fifteen pending digits \<open>1\<close>: a full input buffer.\<close>

definition full_input_state :: calc where
  "full_input_state = init_calc\<lparr>inp := \<lparr>inbuf = replicate 16 1, inbufpos = 15\<rparr>\<rparr>"

text \<open>A full stack of zeros with a full input buffer.\<close>

definition full_state :: calc where
  "full_state = full_input_state\<lparr>stk := \<lparr>stack = replicate STACKSIZE 0, stackpos = 1024\<rparr>\<rparr>"

text \<open>One value on the stack, the least \<open>int32_t\<close> \<open>-2\<^sup>3\<^sup>1\<close>.\<close>

definition min_state :: calc where
  "min_state =
     init_calc\<lparr>stk := \<lparr>stack = (replicate STACKSIZE 0)[0 := - 2147483648], stackpos = 1\<rparr>\<rparr>"

text \<open>The values \<open>vs\<close> on the stack, bottom first, and no pending digit.\<close>

definition stack_state :: "int32 list \<Rightarrow> calc" where
  "stack_state vs =
     init_calc\<lparr>stk := \<lparr>stack = vs @ replicate (STACKSIZE - length vs) 0,
                            stackpos = of_nat (length vs)\<rparr>\<rparr>"

lemma sample_state_inv: "n \<le> STACKSIZE \<Longrightarrow> calc_inv (sample_state n)"
  by (simp add: sample_state_def calc_inv_def stack_inv_def init_input_inv STACKSIZE_def
      unat_of_nat)

lemma sample_state_abs:
  "n \<le> STACKSIZE \<Longrightarrow>
   abs_stack (stk (sample_state n)) = replicate n 0 \<and> abs_input (inp (sample_state n)) = []"
  by (simp add: sample_state_def abs_stack_def init_input_def abs_input_def STACKSIZE_def
      unat_of_nat)

lemma abs_calc_init: "abs_calc init_calc = \<lparr>a_stack = [], a_input = []\<rparr>"
  by (simp add: abs_calc_def init_calc_def init_stack_def init_input_def abs_stack_def
      abs_input_def)

lemma init_calc_facts:
  "calc_inv init_calc \<and> abs_stack (stk init_calc) = [] \<and> abs_input (inp init_calc) = []"
  using init_calc_inv abs_calc_init by (simp add: abs_calc_def)

lemma sample_state_1:
  "calc_inv (sample_state 1) \<and> abs_input (inp (sample_state 1)) = [] \<and>
   abs_stack (stk (sample_state 1)) = [0]"
  using sample_state_inv[of 1] sample_state_abs[of 1] by (simp add: STACKSIZE_def)

lemma stack_state_props:
  "length vs \<le> STACKSIZE \<Longrightarrow>
   calc_inv (stack_state vs) \<and> abs_stack (stk (stack_state vs)) = rev vs \<and>
   abs_input (inp (stack_state vs)) = []"
  using init_calc_inv abs_calc_init
  by (simp add: stack_state_def calc_inv_def stack_inv_def abs_stack_def abs_calc_def
      STACKSIZE_def unat_of_nat)

section \<open>The handler refines the specification\<close>

text \<open>
  C1. On every state satisfying the invariant, a key-down event of a
  calculator key does exactly what the list-level specification \<open>spec_key\<close>
  does: the same output events, the same undefined behaviour, and a new
  state whose abstraction is the specified one.
\<close>

theorem process_record_user_refines:
  assumes "calc_inv s"
  shows "map_sum id (apfst abs_calc) (process_record_user (Custom k) True s) =
         spec_key k (abs_calc s)"
  using assms by (simp add: process_record_user_custom rpn_key_refines)

theorem process_record_user_refines_witness:
  "calc_inv init_calc \<and>
   map_sum id (apfst abs_calc) (process_record_user (Custom RPN_ADD) True init_calc) =
   spec_key RPN_ADD (abs_calc init_calc)"
  using process_record_user_refines[of init_calc RPN_ADD] by (simp add: init_calc_inv)

section \<open>Every reachable state is well formed\<close>

text \<open>
  C2. In every state the firmware can reach from start-up, by any sequence
  of key-down and key-up events, the arrays keep their sizes, the stack depth
  stays within 1024 and the input length within 15 (so every array access
  of the code is in bounds), and the pending input holds decimal digits only.
\<close>

theorem reachable_bounds:
  assumes "reachable s"
  shows "length (stack (stk s)) = STACKSIZE \<and> unat (stackpos (stk s)) \<le> STACKSIZE \<and>
         length (inbuf (inp s)) = MAX_INPUT + 1 \<and> unat (inbufpos (inp s)) \<le> MAX_INPUT \<and>
         (\<forall>d \<in> set (abs_input (inp s)). unat d < 10)"
  using reachable_calc_inv[OF assms]
  by (simp add: calc_inv_def stack_inv_def input_inv_def)

theorem reachable_bounds_witness:
  "reachable init_calc \<and>
   length (stack (stk init_calc)) = STACKSIZE \<and> unat (stackpos (stk init_calc)) \<le> STACKSIZE \<and>
   length (inbuf (inp init_calc)) = MAX_INPUT + 1 \<and> unat (inbufpos (inp init_calc)) \<le> MAX_INPUT"
  using reachable_bounds[OF reachable.init] reachable.init by simp

section \<open>Typing a number\<close>

text \<open>
  C3. Typing one to nine digits and then ENTER, with nothing pending and
  room on the stack, pushes exactly the number typed: the new top, read as a
  signed \<open>int32_t\<close>, is the decimal value of the digits (earliest digit most
  significant, so leading zeros do not count), and the input is empty again.
\<close>

theorem typed_number_pushed:
  assumes "calc_inv s" and "abs_input (inp s) = []"
    and "length (abs_stack (stk s)) < STACKSIZE"
    and "ds \<noteq> []" and "length ds \<le> 9" and "\<forall>d \<in> set ds. d < 10"
  shows "\<exists>s' out v. run_keys (map Custom (map digit_key ds @ [RPN_ENTER])) s = Inr (s', out) \<and>
           abs_stack (stk s') = v # abs_stack (stk s) \<and> sint v = int (dec_val (map of_nat ds)) \<and>
           abs_input (inp s') = []"
proof -
  have "\<forall>d \<in> set (map (of_nat :: nat \<Rightarrow> u8) ds). unat d < 10"
    using assms(6) by (auto simp: unat_of_nat)
  then have "dec_val (map (of_nat :: nat \<Rightarrow> u8) ds) < 10 ^ length ds"
    using dec_val_bound by fastforce
  also have "\<dots> \<le> 10 ^ 9" using assms(5) by (rule power_increasing) simp
  finally have "sint (of_nat (dec_val (map (of_nat :: nat \<Rightarrow> u8) ds)) :: int32) =
      int (dec_val (map of_nat ds))"
    by (intro sint_of_nat_small) simp
  moreover have "length ds \<le> MAX_INPUT" using assms(5) by (simp add: MAX_INPUT_def)
  ultimately show ?thesis
    using run_digits_enter[OF assms(1-4) _ assms(6)] by blast
qed

theorem typed_number_pushed_witness:
  "\<exists>s' out v. run_keys (map Custom (map digit_key [0, 0, 7] @ [RPN_ENTER])) init_calc =
     Inr (s', out) \<and> abs_stack (stk s') = v # abs_stack (stk init_calc) \<and>
     sint v = int (dec_val (map of_nat [0, 0, 7])) \<and> abs_input (inp s') = []"
proof -
  have "abs_input (inp init_calc) = []" "length (abs_stack (stk init_calc)) < STACKSIZE"
    by (simp_all add: init_calc_def init_input_def init_stack_def abs_input_def abs_stack_def
        STACKSIZE_def)
  then show ?thesis
    using typed_number_pushed[OF init_calc_inv, of "[0, 0, 7]"] by simp
qed

section \<open>Errors\<close>

text \<open>
  C5. The handler, from a well-formed state, reaches undefined behaviour
  only in two ways: a division by zero on the DIV key, or an out-of-bounds
  read of \<open>keyvalmap\<close> when POP, PEEK or LIST print a value. In particular
  the unchecked \<open>stack_peek\<close> is never called on an empty stack.
\<close>

theorem handler_errors:
  assumes "calc_inv s" and "process_record_user (Custom k) True s = Inl e"
  shows "(e = Division_by_zero \<and> k = RPN_DIV) \<or>
         (e = Keymap_out_of_bounds \<and> k \<in> {RPN_POP, RPN_PEEK, RPN_LIST})"
  using key_Inl[OF assms] by (rule spec_key_Inl)

theorem handler_errors_witness:
  "calc_inv (sample_state 2) \<and>
   process_record_user (Custom RPN_DIV) True (sample_state 2) = Inl Division_by_zero \<and>
   ((Division_by_zero = Division_by_zero \<and> RPN_DIV = RPN_DIV) \<or>
    (Division_by_zero = Keymap_out_of_bounds \<and> RPN_DIV \<in> {RPN_POP, RPN_PEEK, RPN_LIST}))"
proof -
  have h1: "calc_inv (sample_state 2)" by (rule sample_state_inv) (simp add: STACKSIZE_def)
  have h2: "process_record_user (Custom RPN_DIV) True (sample_state 2) = Inl Division_by_zero"
    by (simp add: process_record_user_def commit_then_def input_push_def div_body_def
        stack_pop_def sample_state_def init_input_def STACKSIZE_def Let_def)
  show ?thesis using handler_errors[OF h1 h2] h1 h2 by blast
qed

text \<open>
  C6. Dividing by a zero on top of the stack is undefined behaviour of the
  code (an integer-divide trap), where the spec requires a reported error
  and an unchanged stack.
\<close>

theorem div_by_zero_traps:
  assumes "calc_inv s" and "abs_input (inp s) = []" and "abs_stack (stk s) = 0 # a # r"
  shows "process_record_user (Custom RPN_DIV) True s = Inl Division_by_zero"
proof -
  from assms(1) have "stack_inv (stk s)" by (simp add: calc_inv_def)
  with assms show ?thesis
    by (simp add: process_record_user_custom commit_then_idle div_body_def refine_simps)
qed

theorem div_by_zero_traps_witness:
  "process_record_user (Custom RPN_DIV) True (stack_state [5, 0]) = Inl Division_by_zero"
proof -
  have p: "calc_inv (stack_state [5, 0])" "abs_input (inp (stack_state [5, 0])) = []"
    "abs_stack (stk (stack_state [5, 0])) = 0 # 5 # []"
    using stack_state_props[of "[5, 0]"] by (simp_all add: STACKSIZE_def)
  show ?thesis using div_by_zero_traps[OF p] .
qed

section \<open>Stack manipulation\<close>

lemma sample_state_2:
  "calc_inv (sample_state 2) \<and> abs_input (inp (sample_state 2)) = [] \<and>
   abs_stack (stk (sample_state 2)) = [0, 0]"
proof -
  have "replicate 2 (0::int32) = [0, 0]" by (simp add: numeral_2_eq_2)
  then show ?thesis
    using sample_state_inv[of 2] sample_state_abs[of 2] by (simp add: STACKSIZE_def)
qed

text \<open>
  C7. DUP followed by POP leaves the stack as it was (same depth, same live
  values), when the stack is not full and the top is non-negative; POP
  prints the top.
\<close>

theorem dup_pop_restores:
  assumes "calc_inv s" and "abs_input (inp s) = []" and "abs_stack (stk s) = v # r"
    and "length (v # r) < STACKSIZE" and "0 \<le> sint v"
  shows "\<exists>s'. run_keys (map Custom [RPN_DUP, RPN_POP]) s =
              Inr (s', [Send_string (''dup'' @ newline), Send_string ''> ''] @
                       digit_taps (dec_digits (nat (sint v))) @ [Send_string newline]) \<and>
              abs_stack (stk s') = abs_stack (stk s) \<and> abs_input (inp s') = []"
proof -
  have "spec_run [RPN_DUP, RPN_POP] (abs_calc s) =
      Inr (abs_calc s, [Send_string (''dup'' @ newline), Send_string ''> ''] @
                       digit_taps (dec_digits (nat (sint v))) @ [Send_string newline])"
    using assms(2-5)
    by (simp add: spec_then_def spec_commit_def spec_dup_def spec_pop_def format_integer_def
        push_list_def abs_calc_def)
  from run_keys_Inr[OF assms(1) this] assms(2) show ?thesis by (auto simp: abs_calc_def)
qed

theorem dup_pop_restores_witness:
  "calc_inv (sample_state 1) \<and> abs_input (inp (sample_state 1)) = [] \<and>
   abs_stack (stk (sample_state 1)) = [0] \<and>
   (\<exists>s'. run_keys (map Custom [RPN_DUP, RPN_POP]) (sample_state 1) =
          Inr (s', [Send_string (''dup'' @ newline), Send_string ''> ''] @
                   digit_taps (dec_digits (nat (sint (0::int32)))) @ [Send_string newline]) \<and>
          abs_stack (stk s') = abs_stack (stk (sample_state 1)) \<and> abs_input (inp s') = [])"
proof -
  have h: "calc_inv (sample_state 1)" "abs_input (inp (sample_state 1)) = []"
    "abs_stack (stk (sample_state 1)) = [0]"
    using sample_state_1 by simp_all
  show ?thesis
    using dup_pop_restores[OF h] h by (simp add: STACKSIZE_def)
qed

text \<open>
  C8. On a full stack DUP cannot push the copy, so DUP followed by POP
  removes the original top: the round trip the spec promises fails at
  capacity.
\<close>

theorem dup_pop_full_loses_top:
  assumes "calc_inv s" and "abs_input (inp s) = []" and "abs_stack (stk s) = v # r"
    and "length (v # r) = STACKSIZE" and "0 \<le> sint v"
  shows "\<exists>s' out. run_keys (map Custom [RPN_DUP, RPN_POP]) s = Inr (s', out) \<and>
           abs_stack (stk s') = r"
proof -
  have "spec_run [RPN_DUP, RPN_POP] (abs_calc s) =
      Inr (\<lparr>a_stack = r, a_input = []\<rparr>,
           [Send_string (''dup'' @ newline), Send_string ''> ''] @
           digit_taps (dec_digits (nat (sint v))) @ [Send_string newline])"
    using assms(2-5)
    by (simp add: spec_then_def spec_commit_def spec_dup_def spec_pop_def format_integer_def
        push_list_def abs_calc_def)
  from run_keys_Inr[OF assms(1) this] assms(2) show ?thesis by (auto simp: abs_calc_def)
qed

theorem dup_pop_full_loses_top_witness:
  "calc_inv (sample_state 1024) \<and> abs_input (inp (sample_state 1024)) = [] \<and>
   abs_stack (stk (sample_state 1024)) = 0 # replicate 1023 0 \<and>
   (\<exists>s' out. run_keys (map Custom [RPN_DUP, RPN_POP]) (sample_state 1024) = Inr (s', out) \<and>
      abs_stack (stk s') = replicate 1023 0)"
proof -
  have r: "replicate 1024 (0::int32) = 0 # replicate 1023 0"
    using replicate_Suc[of 1023 "0::int32"] by simp
  have h: "calc_inv (sample_state 1024)" "abs_input (inp (sample_state 1024)) = []"
    "abs_stack (stk (sample_state 1024)) = 0 # replicate 1023 0"
    using sample_state_inv[of 1024] sample_state_abs[of 1024] r by (simp_all add: STACKSIZE_def)
  show ?thesis
    using dup_pop_full_loses_top[OF h] h by (simp add: STACKSIZE_def)
qed

text \<open>
  C9. SWAP exchanges the two top values, and a second SWAP puts them back:
  the stack is then as it was.
\<close>

theorem swap_swap_restores:
  assumes "calc_inv s" and "abs_input (inp s) = []" and "abs_stack (stk s) = x # y # r"
  shows "\<exists>s1 s2.
           run_keys [Custom RPN_SWAP] s = Inr (s1, [Send_string (''swap'' @ newline)]) \<and>
           abs_stack (stk s1) = y # x # r \<and> abs_input (inp s1) = [] \<and>
           run_keys [Custom RPN_SWAP] s1 = Inr (s2, [Send_string (''swap'' @ newline)]) \<and>
           abs_stack (stk s2) = abs_stack (stk s) \<and> abs_input (inp s2) = []"
proof -
  have "spec_run [RPN_SWAP] (abs_calc s) =
      Inr (\<lparr>a_stack = y # x # r, a_input = []\<rparr>, [Send_string (''swap'' @ newline)])"
    using assms(2,3) by (simp add: spec_then_def spec_commit_def spec_swap_def abs_calc_def)
  from run_keys_Inr[OF assms(1) this] obtain s1 where
    r1: "run_keys [Custom RPN_SWAP] s = Inr (s1, [Send_string (''swap'' @ newline)])"
    and a1: "abs_calc s1 = \<lparr>a_stack = y # x # r, a_input = []\<rparr>" by auto
  have i1: "calc_inv s1" using run_keys_inv[OF assms(1) r1] .
  have "spec_run [RPN_SWAP] (abs_calc s1) =
      Inr (\<lparr>a_stack = x # y # r, a_input = []\<rparr>, [Send_string (''swap'' @ newline)])"
    using a1 by (simp add: spec_then_def spec_commit_def spec_swap_def)
  from run_keys_Inr[OF i1 this] obtain s2 where
    r2: "run_keys [Custom RPN_SWAP] s1 = Inr (s2, [Send_string (''swap'' @ newline)])"
    and a2: "abs_calc s2 = \<lparr>a_stack = x # y # r, a_input = []\<rparr>" by auto
  from r1 a1 r2 a2 assms(3) show ?thesis by (auto simp: abs_calc_def)
qed

theorem swap_swap_restores_witness:
  "\<exists>s1 s2.
     run_keys [Custom RPN_SWAP] (stack_state [7, 5]) = Inr (s1, [Send_string (''swap'' @ newline)]) \<and>
     abs_stack (stk s1) = [7, 5] \<and> abs_input (inp s1) = [] \<and>
     run_keys [Custom RPN_SWAP] s1 = Inr (s2, [Send_string (''swap'' @ newline)]) \<and>
     abs_stack (stk s2) = [5, 7] \<and> abs_input (inp s2) = []"
proof -
  have h: "calc_inv (stack_state [7, 5])" "abs_input (inp (stack_state [7, 5])) = []"
    "abs_stack (stk (stack_state [7, 5])) = [5, 7]"
    using stack_state_props[of "[7, 5]"] by (simp_all add: STACKSIZE_def)
  show ?thesis using swap_swap_restores[OF h] h(3) by simp
qed

text \<open>
  C10. Addition and multiplication commute: exchanging the two operands with
  SWAP first gives the same stack as applying ADD (or MUL) directly, and the
  result is \<open>a + b\<close> (or \<open>a * b\<close>) in 32-bit wrap-around arithmetic.
\<close>

theorem add_mul_commute:
  assumes "calc_inv s" and "abs_input (inp s) = []" and "abs_stack (stk s) = b # a # r"
  shows "(\<exists>s1 s2 o1 o2. run_keys (map Custom [RPN_ADD]) s = Inr (s1, o1) \<and>
           run_keys (map Custom [RPN_SWAP, RPN_ADD]) s = Inr (s2, o2) \<and>
           abs_stack (stk s1) = (a + b) # r \<and> abs_stack (stk s2) = abs_stack (stk s1)) \<and>
         (\<exists>s1 s2 o1 o2. run_keys (map Custom [RPN_MUL]) s = Inr (s1, o1) \<and>
           run_keys (map Custom [RPN_SWAP, RPN_MUL]) s = Inr (s2, o2) \<and>
           abs_stack (stk s1) = (a * b) # r \<and> abs_stack (stk s2) = abs_stack (stk s1))"
proof -
  let ?a = "abs_calc s"
  have add1: "spec_run [RPN_ADD] ?a =
      Inr (?a\<lparr>a_stack := (a + b) # r\<rparr>, [Send_string (''+'' @ newline)])"
    and add2: "spec_run [RPN_SWAP, RPN_ADD] ?a =
      Inr (?a\<lparr>a_stack := (b + a) # r\<rparr>,
           [Send_string (''swap'' @ newline), Send_string (''+'' @ newline)])"
    and mul1: "spec_run [RPN_MUL] ?a =
      Inr (?a\<lparr>a_stack := (a * b) # r\<rparr>, [Send_string (''*'' @ newline)])"
    and mul2: "spec_run [RPN_SWAP, RPN_MUL] ?a =
      Inr (?a\<lparr>a_stack := (b * a) # r\<rparr>,
           [Send_string (''swap'' @ newline), Send_string (''*'' @ newline)])"
    using assms(2,3) by (simp_all add: spec_then_def spec_commit_def spec_swap_def abs_calc_def)
  have "\<exists>s1 s2 o1 o2. run_keys (map Custom [RPN_ADD]) s = Inr (s1, o1) \<and>
           run_keys (map Custom [RPN_SWAP, RPN_ADD]) s = Inr (s2, o2) \<and>
           abs_stack (stk s1) = (a + b) # r \<and> abs_stack (stk s2) = abs_stack (stk s1)"
    using run_keys_Inr[OF assms(1) add1] run_keys_Inr[OF assms(1) add2]
    by (auto simp: abs_calc_def add.commute)
  moreover have "\<exists>s1 s2 o1 o2. run_keys (map Custom [RPN_MUL]) s = Inr (s1, o1) \<and>
           run_keys (map Custom [RPN_SWAP, RPN_MUL]) s = Inr (s2, o2) \<and>
           abs_stack (stk s1) = (a * b) # r \<and> abs_stack (stk s2) = abs_stack (stk s1)"
    using run_keys_Inr[OF assms(1) mul1] run_keys_Inr[OF assms(1) mul2]
    by (auto simp: abs_calc_def mult.commute)
  ultimately show ?thesis ..
qed

theorem add_mul_commute_witness:
  "(\<exists>s1 s2 o1 o2. run_keys (map Custom [RPN_ADD]) (sample_state 2) = Inr (s1, o1) \<and>
      run_keys (map Custom [RPN_SWAP, RPN_ADD]) (sample_state 2) = Inr (s2, o2) \<and>
      abs_stack (stk s1) = [0] \<and> abs_stack (stk s2) = abs_stack (stk s1)) \<and>
   (\<exists>s1 s2 o1 o2. run_keys (map Custom [RPN_MUL]) (sample_state 2) = Inr (s1, o1) \<and>
      run_keys (map Custom [RPN_SWAP, RPN_MUL]) (sample_state 2) = Inr (s2, o2) \<and>
      abs_stack (stk s1) = [0] \<and> abs_stack (stk s2) = abs_stack (stk s1))"
proof -
  have h: "calc_inv (sample_state 2)" "abs_input (inp (sample_state 2)) = []"
    "abs_stack (stk (sample_state 2)) = 0 # 0 # []"
    using sample_state_2 by simp_all
  show ?thesis using add_mul_commute[OF h] by simp
qed

section \<open>Reports instead of operations\<close>

text \<open>
  C11. A binary operator or SWAP on a stack of fewer than two values does
  nothing but print its refusal; the refusal of SWAP is the text of DUP's.
\<close>

theorem underflow_reports:
  assumes "calc_inv s" and "abs_input (inp s) = []" and "length (abs_stack (stk s)) < 2"
    and "k \<in> {RPN_ADD, RPN_SUB, RPN_MUL, RPN_DIV, RPN_SWAP}"
  shows "\<exists>s'. run_keys [Custom k] s =
           Inr (s', [Send_string ((case k of RPN_ADD \<Rightarrow> ''# can't +'' | RPN_SUB \<Rightarrow> ''# can't -''
                                   | RPN_MUL \<Rightarrow> ''# can't *'' | RPN_DIV \<Rightarrow> ''# can't /''
                                   | _ \<Rightarrow> ''# can't dup'') @ newline)]) \<and>
           abs_calc s' = abs_calc s"
proof -
  have shape: "abs_stack (stk s) = [] \<or> (\<exists>v. abs_stack (stk s) = [v])"
    using assms(3) by (cases "abs_stack (stk s)") auto
  have "spec_run [k] (abs_calc s) =
      Inr (abs_calc s, [Send_string ((case k of RPN_ADD \<Rightarrow> ''# can't +'' | RPN_SUB \<Rightarrow> ''# can't -''
                                   | RPN_MUL \<Rightarrow> ''# can't *'' | RPN_DIV \<Rightarrow> ''# can't /''
                                   | _ \<Rightarrow> ''# can't dup'') @ newline)])"
    using shape assms(2,4)
    by (auto simp: spec_then_def spec_commit_def spec_swap_def abs_calc_def)
  from run_keys_Inr[OF assms(1) this] show ?thesis by (auto simp: map_sum_apfst_Inr)
qed

theorem underflow_reports_witness:
  "\<exists>s'. run_keys [Custom RPN_SWAP] (sample_state 1) =
     Inr (s', [Send_string (''# can't dup'' @ newline)]) \<and>
     abs_calc s' = abs_calc (sample_state 1)"
proof -
  have h: "calc_inv (sample_state 1)" "abs_input (inp (sample_state 1)) = []"
    "length (abs_stack (stk (sample_state 1))) < 2"
    using sample_state_1 by simp_all
  show ?thesis using underflow_reports[OF h, of RPN_SWAP] by simp
qed

text \<open>
  C12. On an empty stack POP and PEEK print \<open># empty\<close>, NEG and DUP print
  their refusal, and LIST prints an empty dump; none changes the state.
\<close>

theorem empty_reports:
  assumes "calc_inv s" and "abs_input (inp s) = []" and "abs_stack (stk s) = []"
    and "k \<in> {RPN_POP, RPN_PEEK, RPN_NEG, RPN_DUP, RPN_LIST}"
  shows "\<exists>s'. run_keys [Custom k] s =
           Inr (s', case k of RPN_NEG \<Rightarrow> [Send_string (''# can't negate'' @ newline)]
                    | RPN_DUP \<Rightarrow> [Send_string (''# can't dup'' @ newline)]
                    | RPN_LIST \<Rightarrow> [Send_string (''#   begin stack dump'' @ newline),
                                   Send_string (''#   end stack dump'' @ newline)]
                    | _ \<Rightarrow> [Send_string (''# empty'' @ newline)]) \<and>
           abs_calc s' = abs_calc s"
proof -
  have "spec_run [k] (abs_calc s) =
      Inr (abs_calc s, case k of RPN_NEG \<Rightarrow> [Send_string (''# can't negate'' @ newline)]
                    | RPN_DUP \<Rightarrow> [Send_string (''# can't dup'' @ newline)]
                    | RPN_LIST \<Rightarrow> [Send_string (''#   begin stack dump'' @ newline),
                                   Send_string (''#   end stack dump'' @ newline)]
                    | _ \<Rightarrow> [Send_string (''# empty'' @ newline)])"
    using assms(2-4)
    by (auto simp: spec_then_def spec_commit_def spec_pop_def spec_peek_def spec_neg_def
        spec_dup_def spec_list_def abs_calc_def)
  from run_keys_Inr[OF assms(1) this] show ?thesis by auto
qed

theorem empty_reports_witness:
  "\<exists>s'. run_keys [Custom RPN_POP] init_calc = Inr (s', [Send_string (''# empty'' @ newline)]) \<and>
     abs_calc s' = abs_calc init_calc"
proof -
  have h: "calc_inv init_calc" "abs_input (inp init_calc) = []"
    "abs_stack (stk (init_calc)) = []"
    using init_calc_facts by (simp_all add: STACKSIZE_def)
  show ?thesis using empty_reports[OF h, of RPN_POP] by simp
qed

section \<open>Digits, printing and the dump\<close>

text \<open>
  C13. When fifteen digits are pending, a further digit key is dropped
  from the buffer, yet its character is still echoed to the host.
\<close>

theorem full_input_digit_echo:
  assumes "calc_inv s" and "length (abs_input (inp s)) = MAX_INPUT" and "d < 10"
  shows "\<exists>s'. run_keys [Custom (digit_key d)] s = Inr (s', [Send_string [char_of (48 + d)]]) \<and>
              abs_calc s' = abs_calc s"
proof -
  have "spec_run [digit_key d] (abs_calc s) = Inr (abs_calc s, [Send_string [char_of (48 + d)]])"
    using assms(2,3) by (simp add: spec_key_digit spec_digit_def abs_calc_def)
  from run_keys_Inr[OF assms(1) this] show ?thesis by auto
qed

theorem full_input_digit_echo_witness:
  "\<exists>s'. run_keys [Custom RPN_7] full_input_state = Inr (s', [Send_string ''7'']) \<and>
     abs_calc s' = abs_calc full_input_state"
proof -
  have i: "calc_inv full_input_state"
    using init_calc_inv
    by (simp add: full_input_state_def calc_inv_def input_inv_def abs_input_def MAX_INPUT_def)
  have l: "length (abs_input (inp full_input_state)) = MAX_INPUT"
    by (simp add: full_input_state_def abs_input_def MAX_INPUT_def)
  have k: "digit_key 7 = RPN_7" by (simp add: digit_key_def)
  have c: "char_of (48 + 7 :: nat) = CHR ''7''" by code_simp
  show ?thesis using full_input_digit_echo[OF i l, of 7] k c by simp
qed

text \<open>
  C14. Typing the decimal digits of a number below \<open>10\<^sup>9\<close>, ENTER and
  POP echoes the digits, prints the same digits back, and leaves the stack
  as it was.
\<close>

theorem print_type_roundtrip:
  assumes "calc_inv s" and "abs_input (inp s) = []"
    and "length (abs_stack (stk s)) < STACKSIZE" and "n < 10 ^ 9"
  shows "\<exists>s'. run_keys (map Custom (map digit_key (dec_digits n) @ [RPN_ENTER, RPN_POP])) s =
           Inr (s', map (\<lambda>d. Send_string [char_of (48 + d)]) (dec_digits n) @
                    [Send_string (''<'' @ newline), Send_string ''> ''] @
                    digit_taps (dec_digits n) @ [Send_string newline]) \<and>
           abs_calc s' = abs_calc s"
proof -
  let ?a = "abs_calc s" and ?ds = "dec_digits n"
  have len: "length ?ds \<le> 9" using dec_digits_length_bound[of n 9] assms(4) by simp
  have lt: "\<forall>d \<in> set ?ds. d < 10" using dec_digits_less_10 by blast
  have ne: "?ds \<noteq> []" by (subst dec_digits.simps) simp
  have sn: "sint (of_nat n :: int32) = int n" using assms(4) by (intro sint_of_nat_small) simp
  have d: "spec_run (map digit_key ?ds) ?a =
      Inr (?a\<lparr>a_input := map of_nat ?ds\<rparr>, map (\<lambda>d. Send_string [char_of (48 + d)]) ?ds)"
    using spec_run_digits[of ?a ?ds] len lt assms(2) by (simp add: abs_calc_def MAX_INPUT_def)
  have e: "spec_run [RPN_ENTER, RPN_POP] (?a\<lparr>a_input := map of_nat ?ds\<rparr>) =
      Inr (?a, [Send_string (''<'' @ newline), Send_string ''> ''] @ digit_taps ?ds @
               [Send_string newline])"
    using assms(2,3) ne sn
    by (simp add: spec_commit_def spec_then_def spec_pop_def format_integer_def push_list_def
        dec_val_dec_digits abs_calc_def)
  have "spec_run (map digit_key ?ds @ [RPN_ENTER, RPN_POP]) ?a =
      Inr (?a, map (\<lambda>d. Send_string [char_of (48 + d)]) ?ds @
               [Send_string (''<'' @ newline), Send_string ''> ''] @ digit_taps ?ds @
               [Send_string newline])"
    by (simp add: spec_run_append d e del: spec_run.simps(2))
  from run_keys_Inr[OF assms(1) this] show ?thesis by auto
qed

theorem print_type_roundtrip_witness:
  "\<exists>s'. run_keys (map Custom (map digit_key (dec_digits 42) @ [RPN_ENTER, RPN_POP])) init_calc =
     Inr (s', map (\<lambda>d. Send_string [char_of (48 + d)]) (dec_digits 42) @
              [Send_string (''<'' @ newline), Send_string ''> ''] @
              digit_taps (dec_digits 42) @ [Send_string newline]) \<and>
     abs_calc s' = abs_calc init_calc"
proof -
  have h: "calc_inv init_calc" "abs_input (inp init_calc) = []"
    "length (abs_stack (stk (init_calc))) < STACKSIZE"
    using init_calc_facts by (simp_all add: STACKSIZE_def)
  show ?thesis using print_type_roundtrip[OF h, of 42] by simp
qed

text \<open>
  C15. When no value on the stack is negative, LIST prints one line
  \<open># \<close> and the digits of each value, top first, between the begin and end
  markers, and changes nothing.
\<close>

theorem list_dumps_stack:
  assumes "calc_inv s" and "abs_input (inp s) = []"
    and "\<forall>v \<in> set (abs_stack (stk s)). 0 \<le> sint v"
  shows "\<exists>s'. run_keys [Custom RPN_LIST] s =
           Inr (s', [Send_string (''#   begin stack dump'' @ newline)] @
                    concat (map (\<lambda>v. [Send_string ''# ''] @ digit_taps (dec_digits (nat (sint v))) @
                                     [Send_string newline]) (abs_stack (stk s))) @
                    [Send_string (''#   end stack dump'' @ newline)]) \<and>
           abs_calc s' = abs_calc s"
proof -
  have "spec_run [RPN_LIST] (abs_calc s) =
      Inr (abs_calc s, [Send_string (''#   begin stack dump'' @ newline)] @
                    concat (map (\<lambda>v. [Send_string ''# ''] @ digit_taps (dec_digits (nat (sint v))) @
                                     [Send_string newline]) (abs_stack (stk s))) @
                    [Send_string (''#   end stack dump'' @ newline)])"
    using assms(2,3) spec_dump_nonneg[of "abs_stack (stk s)"]
    by (simp add: spec_then_def spec_commit_def spec_list_def abs_calc_def)
  from run_keys_Inr[OF assms(1) this] show ?thesis by auto
qed

theorem list_dumps_stack_witness:
  "\<exists>s'. run_keys [Custom RPN_LIST] (sample_state 2) =
     Inr (s', [Send_string (''#   begin stack dump'' @ newline),
               Send_string ''# '', Tap_code KC_0, Send_string newline,
               Send_string ''# '', Tap_code KC_0, Send_string newline,
               Send_string (''#   end stack dump'' @ newline)]) \<and>
     abs_calc s' = abs_calc (sample_state 2)"
proof -
  have h: "calc_inv (sample_state 2)" "abs_input (inp (sample_state 2)) = []"
    "\<forall>v \<in> set (abs_stack (stk (sample_state 2))). 0 \<le> sint v"
    using sample_state_2 by simp_all
  show ?thesis
    using list_dumps_stack[OF h] sample_state_2 by (simp add: digit_taps_def keyvalmap_def)
qed

section \<open>Edge cases of single keys\<close>

text \<open>
  C25. NEG replaces the top by its two's-complement negation: the exact
  negation of its signed value, except for the least value \<open>-2\<^sup>3\<^sup>1\<close>,
  which wraps to itself.
\<close>

theorem neg_wraps:
  assumes "calc_inv s" and "abs_input (inp s) = []" and "abs_stack (stk s) = v # r"
  shows "\<exists>s'. run_keys [Custom RPN_NEG] s = Inr (s', [Send_string (''-.'' @ newline)]) \<and>
              abs_stack (stk s') = (- v) # r \<and>
              (if sint v = - (2 ^ 31) then - v = v else sint (- v) = - sint v)"
proof -
  have "spec_run [RPN_NEG] (abs_calc s) =
      Inr ((abs_calc s)\<lparr>a_stack := (- v) # r\<rparr>, [Send_string (''-.'' @ newline)])"
    using assms(2,3) by (simp add: spec_then_def spec_commit_def spec_neg_def abs_calc_def)
  from run_keys_Inr[OF assms(1) this] show ?thesis
    by (auto simp: abs_calc_def sint_uminus_int32 uminus_int32_min)
qed

theorem neg_wraps_witness:
  "\<exists>s'. run_keys [Custom RPN_NEG] min_state = Inr (s', [Send_string (''-.'' @ newline)]) \<and>
     abs_stack (stk s') = abs_stack (stk min_state)"
proof -
  have r: "replicate 1024 (0::int32) = 0 # replicate 1023 0"
    using replicate_Suc[of 1023 "0::int32"] by simp
  have h: "calc_inv min_state" "abs_input (inp min_state) = []"
    "abs_stack (stk min_state) = [- 2147483648]"
    using init_calc_inv abs_calc_init
    by (simp_all add: min_state_def r calc_inv_def stack_inv_def abs_stack_def abs_calc_def
        STACKSIZE_def)
  have m: "sint (- 2147483648 :: int32) = - (2 ^ 31)" by simp
  from neg_wraps[OF h] obtain s' where
    a: "run_keys [Custom RPN_NEG] min_state = Inr (s', [Send_string (''-.'' @ newline)])"
    and b: "abs_stack (stk s') = [- (- 2147483648)]"
    and c: "if sint (- 2147483648 :: int32) = - (2 ^ 31) then - (- 2147483648) = (- 2147483648 :: int32)
            else sint (- (- 2147483648 :: int32)) = - sint (- 2147483648 :: int32)"
    by blast
  from c m have "- (- 2147483648) = (- 2147483648 :: int32)" by (simp only: if_True)
  with b h(3) have "abs_stack (stk s') = abs_stack (stk min_state)" by (simp only:)
  with a show ?thesis by blast
qed

text \<open>
  C26. ENTER on a full stack drains the pending digits and prints the
  commit mark \<open><\<close>, but the value is lost: the stack is unchanged and
  \<open>stackpos\<close> stays at \<open>STACKSIZE\<close>.
\<close>

theorem enter_full_stack_drops:
  assumes "calc_inv s" and "length (abs_stack (stk s)) = STACKSIZE"
    and "abs_input (inp s) \<noteq> []"
  shows "\<exists>s'. run_keys [Custom RPN_ENTER] s = Inr (s', [Send_string (''<'' @ newline)]) \<and>
              abs_stack (stk s') = abs_stack (stk s) \<and> unat (stackpos (stk s')) = STACKSIZE \<and>
              abs_input (inp s') = []"
proof -
  have "spec_run [RPN_ENTER] (abs_calc s) =
      Inr ((abs_calc s)\<lparr>a_input := []\<rparr>, [Send_string (''<'' @ newline)])"
    using assms(2,3) by (simp add: spec_commit_def push_list_def abs_calc_def)
  from run_keys_Inr[OF assms(1) this] obtain s' where
    r: "run_keys [Custom RPN_ENTER] s = Inr (s', [Send_string (''<'' @ newline)])"
    and a: "abs_calc s' = (abs_calc s)\<lparr>a_input := []\<rparr>" by auto
  from run_keys_inv[OF assms(1) r] have "stack_inv (stk s')" by (simp add: calc_inv_def)
  with a assms(2) have "unat (stackpos (stk s')) = STACKSIZE"
    by (simp add: abs_calc_def flip: stack_inv_length_abs)
  with r a show ?thesis by (auto simp: abs_calc_def)
qed

theorem enter_full_stack_drops_witness:
  "\<exists>s'. run_keys [Custom RPN_ENTER] full_state = Inr (s', [Send_string (''<'' @ newline)]) \<and>
     abs_stack (stk s') = abs_stack (stk full_state) \<and> unat (stackpos (stk s')) = STACKSIZE \<and>
     abs_input (inp s') = []"
proof -
  have h: "calc_inv full_state" "length (abs_stack (stk full_state)) = STACKSIZE"
    "abs_input (inp full_state) \<noteq> []"
    by (simp_all add: full_state_def full_input_state_def init_calc_def calc_inv_def
        stack_inv_def input_inv_def abs_input_def abs_stack_def STACKSIZE_def MAX_INPUT_def)
  show ?thesis using enter_full_stack_drops[OF h] .
qed

text \<open>
  C27. BSPC with no pending digit still sends a backspace to the host, which
  erases a character of earlier output; the calculator state is unchanged.
\<close>

theorem bspc_empty_taps:
  assumes "calc_inv s" and "abs_input (inp s) = []"
  shows "\<exists>s'. run_keys [Custom RPN_BSPC] s = Inr (s', [Tap_code KC_BSPC]) \<and>
              abs_calc s' = abs_calc s"
proof -
  have "spec_run [RPN_BSPC] (abs_calc s) = Inr (abs_calc s, [Tap_code KC_BSPC])"
    using assms(2) by (simp add: abs_calc_def)
  from run_keys_Inr[OF assms(1) this] show ?thesis by auto
qed

theorem bspc_empty_taps_witness:
  "\<exists>s'. run_keys [Custom RPN_BSPC] init_calc = Inr (s', [Tap_code KC_BSPC]) \<and>
     abs_calc s' = abs_calc init_calc"
proof -
  have h: "calc_inv init_calc" "abs_input (inp init_calc) = []"
    using init_calc_facts by simp_all
  show ?thesis using bspc_empty_taps[OF h] .
qed

section \<open>Recovery\<close>

text \<open>
  C28. From every state the firmware can reach, some sequence of
  calculator keys brings it back to an empty stack and an empty input
  buffer without undefined behaviour: ENTER, then MUL until one value is
  left, then \<open>0\<close>, MUL and POP (the product with 0 prints as \<open>0\<close>, so even a
  negative value is cleared safely). The state reached is again reachable.
\<close>

theorem reset_reachable:
  assumes "reachable s"
  shows "\<exists>ks s' out. run_keys (map Custom ks) s = Inr (s', out) \<and> reachable s' \<and>
                     abs_calc s' = abs_calc init_calc"
proof -
  have inv: "calc_inv s" using assms by (rule reachable_calc_inv)
  obtain ks a' out where r: "spec_run ks (abs_calc s) = Inr (a', out)"
    and e: "a_stack a' = []" "a_input a' = []"
    using spec_reset[of "abs_calc s"] by blast
  from run_keys_Inr[OF inv r] obtain s' where
    s': "run_keys (map Custom ks) s = Inr (s', out)" "abs_calc s' = a'" by blast
  have "reachable s'" using run_keys_reachable[OF assms s'(1)] .
  moreover have "abs_calc s' = abs_calc init_calc"
    using s'(2) e by (simp add: abs_calc_init rpn_abs.equality)
  ultimately show ?thesis using s'(1) by blast
qed

theorem reset_reachable_witness:
  "\<exists>ks s' out. run_keys (map Custom ks) init_calc = Inr (s', out) \<and> reachable s' \<and>
                abs_calc s' = abs_calc init_calc"
  using reset_reachable[OF reachable.init] .

section \<open>What the user sees on the host\<close>

text \<open>
  C29. The spec's example session, for any two numbers below \<open>10^9\<close>:
  typing the digits of \<open>a\<close>, ENTER, the digits of \<open>b\<close>, ADD and POP, with
  nothing pending and room for two values, leaves on the host the lines
  \<open>a<\<close>, \<open>b<\<close>, \<open>+\<close> and \<open>> a+b\<close> after whatever it showed, and the
  calculator as it was.
\<close>

theorem transcript_add:
  assumes "calc_inv s" and "abs_input (inp s) = []"
    and "length (abs_stack (stk s)) + 2 \<le> STACKSIZE" and "a < 10 ^ 9" and "b < 10 ^ 9"
  shows "\<exists>s' out. run_keys (map Custom (map digit_key (dec_digits a) @ [RPN_ENTER] @
                                       map digit_key (dec_digits b) @ [RPN_ADD, RPN_POP])) s =
              Inr (s', out) \<and>
            host_text t out = t @ dec_string a @ ''<'' @ newline @ dec_string b @ ''<'' @ newline @
                                ''+'' @ newline @ ''> '' @ dec_string (a + b) @ newline \<and>
            abs_calc s' = abs_calc s"
proof -
  let ?a = "abs_calc s" and ?st = "abs_stack (stk s)"
  let ?echo = "\<lambda>n. map (\<lambda>d. Send_string [char_of (48 + d)]) (dec_digits n)"
  let ?a1 = "?a\<lparr>a_stack := of_nat a # ?st\<rparr>"
  have sa: "spec_run (map digit_key (dec_digits a) @ [RPN_ENTER]) ?a =
      Inr (?a1, ?echo a @ [Send_string (''<'' @ newline)])"
    using spec_type_number[of ?a a] assms(2-4) by (simp add: abs_calc_def)
  let ?db = "dec_digits b"
  let ?a2 = "?a1\<lparr>a_input := map of_nat ?db\<rparr>"
  have lb: "length ?db \<le> 9" using dec_digits_length_bound[of b 9] assms(5) by simp
  have ltb: "\<forall>d \<in> set ?db. d < 10" using dec_digits_less_10 by blast
  have neb: "?db \<noteq> []" by (subst dec_digits.simps) simp
  have sb: "spec_run (map digit_key ?db) ?a1 = Inr (?a2, ?echo b)"
    using spec_run_digits[of ?a1 ?db] lb ltb assms(2) by (simp add: abs_calc_def MAX_INPUT_def)
  have "a + b < 2 ^ 31" using assms(4,5) by simp
  then have sab: "sint (of_nat a + of_nat b :: int32) = int (a + b)"
    using sint_of_nat_small[of "a + b"] by simp
  have sc: "spec_run [RPN_ADD, RPN_POP] ?a2 =
      Inr (?a, [Send_string (''<'' @ newline), Send_string (''+'' @ newline), Send_string ''> ''] @
               digit_taps (dec_digits (a + b)) @ [Send_string newline])"
    using assms(2,3) neb sab nat_int_add[of a b]
    by (simp add: spec_then_def spec_commit_def push_list_def dec_val_dec_digits spec_pop_def
        format_integer_def abs_calc_def)
  have "spec_run ((map digit_key (dec_digits a) @ [RPN_ENTER]) @ map digit_key ?db @
                  [RPN_ADD, RPN_POP]) ?a =
      Inr (?a, (?echo a @ [Send_string (''<'' @ newline)]) @ ?echo b @
               [Send_string (''<'' @ newline), Send_string (''+'' @ newline), Send_string ''> ''] @
               digit_taps (dec_digits (a + b)) @ [Send_string newline])"
    by (simp only: spec_run_append[of "map digit_key (dec_digits a) @ [RPN_ENTER]"]
        spec_run_append[of "map digit_key ?db"] sa sb sc sum.case prod.case)
  from run_keys_Inr[OF assms(1) this] obtain s' where
    "run_keys (map Custom (map digit_key (dec_digits a) @ [RPN_ENTER] @ map digit_key ?db @
                           [RPN_ADD, RPN_POP])) s =
       Inr (s', (?echo a @ [Send_string (''<'' @ newline)]) @ ?echo b @
               [Send_string (''<'' @ newline), Send_string (''+'' @ newline), Send_string ''> ''] @
               digit_taps (dec_digits (a + b)) @ [Send_string newline])"
    "abs_calc s' = ?a" by auto
  then show ?thesis by (simp add: host_text_echoes host_text_dec_taps dec_string_def)
qed

theorem transcript_add_witness:
  "\<exists>s' out. run_keys (map Custom [RPN_1, RPN_2, RPN_ENTER, RPN_3, RPN_ADD, RPN_POP]) init_calc =
              Inr (s', out) \<and>
            host_text [] out = ''12<'' @ newline @ ''3<'' @ newline @ ''+'' @ newline @ ''> 15'' @ newline \<and>
            abs_calc s' = abs_calc init_calc"
proof -
  have h: "calc_inv init_calc" "abs_input (inp init_calc) = []"
    "length (abs_stack (stk init_calc)) + 2 \<le> STACKSIZE"
    using init_calc_facts by (simp_all add: STACKSIZE_def)
  have k: "map digit_key (dec_digits 12) @ [RPN_ENTER] @ map digit_key (dec_digits 3) @
             [RPN_ADD, RPN_POP] = [RPN_1, RPN_2, RPN_ENTER, RPN_3, RPN_ADD, RPN_POP]"
    by (simp add: dec_digits_big digit_key_def)
  have t: "dec_string 12 = ''12''" "dec_string 3 = ''3''" "dec_string (12 + 3) = ''15''"
    by (simp_all add: dec_string_def dec_digits_big char_of_def bit_simps)
  show ?thesis using transcript_add[OF h, of 12 3 "[]"] by (simp only: k t) simp
qed

text \<open>
  C30. While the buffer is neither full nor backspaced past empty, the
  host's text tracks the pending digits: if the host shows some text
  followed by the echo of the pending digits, then after a digit key, or
  after BSPC with digits pending, it shows the same text followed by the
  echo of the new pending digits.
\<close>

theorem echo_tracks_input:
  assumes "calc_inv s"
    and "(k = RPN_BSPC \<and> abs_input (inp s) \<noteq> []) \<or>
         (\<exists>d < 10. k = digit_key d \<and> length (abs_input (inp s)) < MAX_INPUT)"
  shows "\<exists>s' out. run_keys [Custom k] s = Inr (s', out) \<and>
           host_text (t @ echo_text (abs_input (inp s))) out = t @ echo_text (abs_input (inp s'))"
proof -
  let ?a = "abs_calc s"
  from assms(2) obtain a' out where sp: "spec_run [k] ?a = Inr (a', out)"
    and h: "host_text (t @ echo_text (a_input ?a)) out = t @ echo_text (a_input a')"
  proof (elim disjE exE conjE)
    assume k: "k = RPN_BSPC" and ne: "abs_input (inp s) \<noteq> []"
    show thesis
      by (rule that[of "?a\<lparr>a_input := butlast (a_input ?a)\<rparr>" "[Tap_code KC_BSPC]"])
         (use k ne in \<open>simp_all add: abs_calc_def echo_text_butlast butlast_append\<close>)
  next
    fix d assume d: "d < 10" and k: "k = digit_key d"
      and l: "length (abs_input (inp s)) < MAX_INPUT"
    show thesis
      by (rule that[of "?a\<lparr>a_input := a_input ?a @ [of_nat d]\<rparr>" "[Send_string [char_of (48 + d)]]"])
         (use k d l in \<open>simp_all add: abs_calc_def spec_key_digit spec_digit_def echo_text_snoc_digit\<close>)
  qed
  from run_keys_Inr[OF assms(1) sp] obtain s' where
    "run_keys [Custom k] s = Inr (s', out)" "abs_calc s' = a'" by auto
  with h show ?thesis by (auto simp: abs_calc_def)
qed

theorem echo_tracks_input_witness:
  "\<exists>s' out. run_keys [Custom RPN_5] init_calc = Inr (s', out) \<and>
     host_text (''ab'' @ echo_text (abs_input (inp init_calc))) out = ''ab5''"
proof -
  have h: "calc_inv init_calc" by (rule init_calc_inv)
  have e: "abs_input (inp init_calc) = []" using init_calc_facts by simp
  have k: "digit_key 5 = RPN_5" by (simp add: digit_key_def)
  have "(RPN_5 = RPN_BSPC \<and> abs_input (inp init_calc) \<noteq> []) \<or>
        (\<exists>d < 10. RPN_5 = digit_key d \<and> length (abs_input (inp init_calc)) < MAX_INPUT)"
    using e k by (auto simp: MAX_INPUT_def intro!: exI[of _ 5])
  from echo_tracks_input[OF h this, of "''ab''"] obtain s' out where
    r: "run_keys [Custom RPN_5] init_calc = Inr (s', out)"
    and t: "host_text (''ab'' @ echo_text (abs_input (inp init_calc))) out =
            ''ab'' @ echo_text (abs_input (inp s'))" by blast
  have "abs_input (inp s') = [5]"
  proof -
    have "spec_run [RPN_5] (abs_calc init_calc) = Inr ((abs_calc init_calc)\<lparr>a_input := [5]\<rparr>,
        [Send_string [char_of (48 + 5 :: nat)]])"
      by (simp add: abs_calc_init spec_digit_def MAX_INPUT_def)
    from run_keys_Inr[OF h this] r show ?thesis by (auto simp: abs_calc_def)
  qed
  with r t show ?thesis by (auto simp: echo_text_def char_of_def bit_simps)
qed

section \<open>Arithmetic at the word boundary and operand order\<close>

text \<open>
  C32. DIV by a non-zero top computes C's truncating quotient of the value
  below by the top (\<open>-7 / 2 = -3\<close>, not \<open>-4\<close>): its signed value is
  \<open>sint a sdiv sint b\<close> exactly, except for \<open>INT_MIN / -1\<close>, the one signed
  overflow of C division, which the model wraps back to \<open>INT_MIN\<close>.
\<close>

theorem div_truncates:
  assumes "calc_inv s" and "abs_input (inp s) = []" and "abs_stack (stk s) = b # a # r"
    and "b \<noteq> 0"
  shows "\<exists>s'. run_keys [Custom RPN_DIV] s = Inr (s', [Send_string (''/'' @ newline)]) \<and>
              abs_stack (stk s') = c_div a b # r \<and>
              (if sint a = - (2 ^ 31) \<and> sint b = -1 then c_div a b = a
               else sint (c_div a b) = sint a sdiv sint b)"
proof -
  have "spec_run [RPN_DIV] (abs_calc s) =
      Inr ((abs_calc s)\<lparr>a_stack := c_div a b # r\<rparr>, [Send_string (''/'' @ newline)])"
    using assms(2-4) by (simp add: spec_then_def spec_commit_def spec_div_def abs_calc_def)
  from run_keys_Inr[OF assms(1) this] show ?thesis
    by (auto simp: abs_calc_def sint_c_div c_div_min_minus_one)
qed

theorem div_truncates_witness:
  "\<exists>s'. run_keys [Custom RPN_DIV] (stack_state [-7, 2]) = Inr (s', [Send_string (''/'' @ newline)]) \<and>
     abs_stack (stk s') = [c_div (-7) 2] \<and> sint (c_div (-7) 2) = -3"
proof -
  have p: "calc_inv (stack_state [-7, 2])" "abs_input (inp (stack_state [-7, 2])) = []"
    "abs_stack (stk (stack_state [-7, 2])) = 2 # (-7) # []"
    using stack_state_props[of "[-7, 2]"] by (simp_all add: STACKSIZE_def)
  have "sint (-7 :: int32) = -7" "sint (2 :: int32) = 2" by simp_all
  moreover have "(-7 :: int) sdiv 2 = -3" by (simp add: signed_divide_int_def)
  ultimately show ?thesis using div_truncates[OF p] by simp
qed

text \<open>
  C33. Pending digits are committed before the operator runs, so they are
  the right operand: with \<open>x\<close> on the stack and the digits of \<open>n\<close> pending,
  SUB prints the commit mark and \<open>-\<close>, and leaves \<open>x - n\<close> on top.
\<close>

theorem pending_is_right_operand:
  assumes "calc_inv s" and "abs_input (inp s) = ds" and "ds \<noteq> []" and "length ds \<le> 9"
    and "abs_stack (stk s) = x # r" and "length (x # r) < STACKSIZE"
  shows "\<exists>s' v. run_keys [Custom RPN_SUB] s =
           Inr (s', [Send_string (''<'' @ newline), Send_string (''-'' @ newline)]) \<and>
           abs_stack (stk s') = (x - v) # r \<and> sint v = int (dec_val ds) \<and> abs_input (inp s') = []"
proof -
  from assms(1,2) have "\<forall>d \<in> set ds. unat d < 10"
    by (simp add: calc_inv_def input_inv_def)
  then have "dec_val ds < 10 ^ length ds" by (rule dec_val_bound)
  also have "\<dots> \<le> 10 ^ 9" using assms(4) by (rule power_increasing) simp
  finally have sv: "sint (of_nat (dec_val ds) :: int32) = int (dec_val ds)"
    by (intro sint_of_nat_small) simp
  have "spec_run [RPN_SUB] (abs_calc s) =
      Inr (\<lparr>a_stack = (x - of_nat (dec_val ds)) # r, a_input = []\<rparr>,
           [Send_string (''<'' @ newline), Send_string (''-'' @ newline)])"
    using assms(2,3,5,6) by (simp add: spec_then_def spec_commit_def push_list_def abs_calc_def)
  from run_keys_Inr[OF assms(1) this] sv show ?thesis by (auto simp: abs_calc_def)
qed

theorem pending_is_right_operand_witness:
  "\<exists>s' v. run_keys [Custom RPN_SUB] ((stack_state [5])\<lparr>inp := \<lparr>inbuf = 3 # replicate 15 0, inbufpos = 1\<rparr>\<rparr>) =
     Inr (s', [Send_string (''<'' @ newline), Send_string (''-'' @ newline)]) \<and>
     abs_stack (stk s') = (5 - v) # [] \<and> sint v = 3 \<and> abs_input (inp s') = []"
proof -
  let ?s = "(stack_state [5])\<lparr>inp := \<lparr>inbuf = 3 # replicate 15 0, inbufpos = 1 :: u8\<rparr>\<rparr>"
  have p: "calc_inv (stack_state [5])" "abs_stack (stk (stack_state [5])) = [5]"
    using stack_state_props[of "[5]"] by (simp_all add: STACKSIZE_def)
  have h: "calc_inv ?s" "abs_input (inp ?s) = [3]" "[3 :: u8] \<noteq> []" "length [3 :: u8] \<le> 9"
    "abs_stack (stk ?s) = 5 # []" "length [5 :: int32] < STACKSIZE"
    using p by (simp_all add: calc_inv_def input_inv_def abs_input_def MAX_INPUT_def STACKSIZE_def)
  show ?thesis using pending_is_right_operand[OF h] by (simp add: dec_val_def)
qed

section \<open>What the array cells outside the live part do\<close>

text \<open>
  C34. Cells above \<open>stackpos\<close> and above \<open>inbufpos\<close> are never read: POP and
  BSPC only move the counters, leaving stale values behind, yet two
  well-formed states with the same live values behave the same under every
  sequence of calculator keys (same output, same error, and states with
  the same live values again).
\<close>

theorem stale_cells_invisible:
  assumes "calc_inv s1" and "calc_inv s2" and "abs_calc s1 = abs_calc s2"
  shows "map_sum id (apfst abs_calc) (run_keys (map Custom ks) s1) =
         map_sum id (apfst abs_calc) (run_keys (map Custom ks) s2)"
  using run_keys_refines[OF assms(1)] run_keys_refines[OF assms(2)] assms(3) by simp

theorem stale_cells_invisible_witness:
  "map_sum id (apfst abs_calc) (run_keys (map Custom [RPN_1, RPN_LIST]) init_calc) =
   map_sum id (apfst abs_calc)
     (run_keys (map Custom [RPN_1, RPN_LIST])
        (init_calc\<lparr>stk := \<lparr>stack = replicate 1024 7, stackpos = 0\<rparr>,
                   inp := \<lparr>inbuf = replicate 16 9, inbufpos = 0\<rparr>\<rparr>))"
proof -
  let ?g = "init_calc\<lparr>stk := \<lparr>stack = replicate 1024 (7::int32), stackpos = 0\<rparr>,
                      inp := \<lparr>inbuf = replicate 16 (9::u8), inbufpos = 0\<rparr>\<rparr>"
  have h: "calc_inv init_calc" "calc_inv ?g" "abs_calc init_calc = abs_calc ?g"
    using init_calc_inv abs_calc_init
    by (simp_all add: calc_inv_def stack_inv_def input_inv_def abs_calc_def abs_stack_def
        abs_input_def STACKSIZE_def MAX_INPUT_def)
  show ?thesis using stale_cells_invisible[OF h] .
qed

end
